theory Spec2Isabelle
  imports Main "HOL-Library.Word"
begin

unbundle bit_operations_syntax

chapter \<open>loliOS: trap dispatch, IRQ registry, keyboard decoder, terminal line discipline\<close>

text \<open>
  A shallow embedding of \<^verbatim>\<open>keyboard.c\<close>, \<^verbatim>\<open>idt.c\<close> (both revisions in the
  sources) and \<^verbatim>\<open>terminal.c\<close>. Global variables of a C file become an explicit
  state that every function takes and returns; calls into parts of the kernel that are
  not among the sources are recorded in a log of external calls.
\<close>

type_synonym u8 = "8 word"
type_synonym u32 = "32 word"

section \<open>keyboard.c\<close>

subsection \<open>Declarations of keyboard.h\<close>

text \<open>
  Modelled from the spec: \<^verbatim>\<open>keyboard.h\<close> is not among the sources. The modifier
  state is "a bitset of currently-held/toggled modifiers (both left/right Ctrl, Shift,
  Alt, and toggled Caps-Lock)": one flag per modifier key. A value of
  \<^verbatim>\<open>kbd_modifiers_t\<close> is the set of flags whose bit is 1, so that \<^verbatim>\<open>|\<close> is
  union, \<^verbatim>\<open>&\<close> is intersection, \<^verbatim>\<open>& ~mask\<close> is set difference and
  \<^verbatim>\<open>^\<close> is symmetric difference.
\<close>

datatype kbd_modifier_bit = LCTRL | RCTRL | LSHIFT | RSHIFT | LALT | RALT | CAPS

type_synonym kbd_modifiers_t = "kbd_modifier_bit set"

definition KMOD_NONE :: kbd_modifiers_t where "KMOD_NONE = {}"
definition KMOD_LCTRL :: kbd_modifiers_t where "KMOD_LCTRL = {LCTRL}"
definition KMOD_RCTRL :: kbd_modifiers_t where "KMOD_RCTRL = {RCTRL}"
definition KMOD_LSHIFT :: kbd_modifiers_t where "KMOD_LSHIFT = {LSHIFT}"
definition KMOD_RSHIFT :: kbd_modifiers_t where "KMOD_RSHIFT = {RSHIFT}"
definition KMOD_LALT :: kbd_modifiers_t where "KMOD_LALT = {LALT}"
definition KMOD_RALT :: kbd_modifiers_t where "KMOD_RALT = {RALT}"
definition KMOD_CAPS :: kbd_modifiers_t where "KMOD_CAPS = {CAPS}"

text \<open>
  Modelled from the spec: the consolidated masks, "left/right variants of Ctrl/Shift/Alt
  are OR'ed together" (and the comment of \<^verbatim>\<open>get_modifiers\<close>: "if either KMOD_LCTRL or
  KMOD_RCTRL are 1, both bits will be set to 1 so you can just test against KMOD_CTRL").
\<close>

definition KMOD_CTRL :: kbd_modifiers_t where "KMOD_CTRL = KMOD_LCTRL \<union> KMOD_RCTRL"
definition KMOD_SHIFT :: kbd_modifiers_t where "KMOD_SHIFT = KMOD_LSHIFT \<union> KMOD_RSHIFT"
definition KMOD_ALT :: kbd_modifiers_t where "KMOD_ALT = KMOD_LALT \<union> KMOD_RALT"

text \<open>
  The keycode macros \<^verbatim>\<open>KC_*\<close> and \<^verbatim>\<open>NUM_KEYS\<close> of \<^verbatim>\<open>keyboard.h\<close> are
  taken as parameters: every function that uses one of them takes the header's values
  as its first argument.
\<close>

record keyboard_h =
  KC_LCTRL :: u8
  KC_RCTRL :: u8
  KC_LSHIFT :: u8
  KC_RSHIFT :: u8
  KC_LALT :: u8
  KC_RALT :: u8
  KC_CAPS_LOCK :: u8
  KC_L :: u8
  NUM_KEYS :: nat

text \<open>The control sequences, as \<^verbatim>\<open>handle_ctrl_input\<close> of terminal.c lists them.\<close>

datatype kbd_input_ctrl_t = KCTL_NONE | KCTL_CLEAR | KCTL_TERM1 | KCTL_TERM2 | KCTL_TERM3

text \<open>
  \<^verbatim>\<open>kbd_input_t\<close> is a type tag with a union of a character and a control sequence:
  a tagged union.
\<close>

datatype kbd_input_t = KTYP_NONE | KTYP_CHAR char | KTYP_CTRL kbd_input_ctrl_t

subsection \<open>The keycode table\<close>

text \<open>
  The four rows of \<^verbatim>\<open>keycode_map\<close>, 58 initialisers each. Characters that an
  Isabelle string cannot hold are written by their code: 0x08 backspace, 0x09 tab,
  0x0A newline, 0x22 double quote, 0x27 single quote, 0x5C backslash, 0x60 backquote.
\<close>

definition keycode_map_neutral :: "char list" where
  "keycode_map_neutral =
     [CHR 0x00, CHR 0x00] @ ''1234567890-='' @
     [CHR 0x08, CHR 0x09] @ ''qwertyuiop[]'' @
     [CHR 0x0A, CHR 0x00] @ ''asdfghjkl;'' @ [CHR 0x27, CHR 0x60,
      CHR 0x00, CHR 0x5C] @ ''zxcvbnm,./'' @ [CHR 0x00] @ ''*'' @
     [CHR 0x00] @ '' ''"

definition keycode_map_shift :: "char list" where
  "keycode_map_shift =
     [CHR 0x00, CHR 0x00] @ ''!@#$%^&*()_+'' @
     [CHR 0x08, CHR 0x09] @ ''QWERTYUIOP{}'' @
     [CHR 0x0A, CHR 0x00] @ ''ASDFGHJKL:'' @ [CHR 0x22, CHR ''~'',
      CHR 0x00, CHR ''|''] @ ''ZXCVBNM<>?'' @ [CHR 0x00] @ ''*'' @
     [CHR 0x00] @ '' ''"

definition keycode_map_caps :: "char list" where
  "keycode_map_caps =
     [CHR 0x00, CHR 0x00] @ ''1234567890-='' @
     [CHR 0x08, CHR 0x09] @ ''QWERTYUIOP[]'' @
     [CHR 0x0A, CHR 0x00] @ ''ASDFGHJKL;'' @ [CHR 0x27, CHR 0x60,
      CHR 0x00, CHR 0x5C] @ ''ZXCVBNM,./'' @ [CHR 0x00] @ ''*'' @
     [CHR 0x00] @ '' ''"

definition keycode_map_shift_caps :: "char list" where
  "keycode_map_shift_caps =
     [CHR 0x00, CHR 0x00] @ ''!@#$%^&*()_+'' @
     [CHR 0x08, CHR 0x09] @ ''qwertyuiop{}'' @
     [CHR 0x0A, CHR 0x00] @ ''asdfghjkl:'' @ [CHR 0x22, CHR ''~'',
      CHR 0x00, CHR ''|''] @ ''zxcvbnm<>?'' @ [CHR 0x00] @ ''*'' @
     [CHR 0x00] @ '' ''"

text \<open>
  \<^verbatim>\<open>keycode_map[row][keycode]\<close>. The array has \<^verbatim>\<open>NUM_KEYS\<close> columns; a column
  past the 58 initialisers of a row holds 0, as every element of a static array without
  an initialiser does.
\<close>

definition keycode_map :: "nat \<Rightarrow> u8 \<Rightarrow> char" where
  "keycode_map row keycode =
     (let r = [keycode_map_neutral, keycode_map_shift,
               keycode_map_caps, keycode_map_shift_caps] ! row
      in if unat keycode < length r then r ! unat keycode else CHR 0x00)"

subsection \<open>The decoder\<close>

text \<open>
  The only global of keyboard.c is \<^verbatim>\<open>modifiers\<close>; each function below takes its
  value and, where the C function writes it, returns the new one. \<^verbatim>\<open>debugf\<close> only
  logs and is left out.
\<close>

definition set_modifier_bit :: "u8 \<Rightarrow> kbd_modifiers_t \<Rightarrow> kbd_modifiers_t \<Rightarrow> kbd_modifiers_t" where
  "set_modifier_bit b msk modifiers =
     (if b \<noteq> 0 then modifiers \<union> msk else modifiers - msk)"

definition toggle_modifier_bit :: "kbd_modifiers_t \<Rightarrow> kbd_modifiers_t \<Rightarrow> kbd_modifiers_t" where
  "toggle_modifier_bit msk modifiers = (modifiers - msk) \<union> (msk - modifiers)"

definition keycode_to_modifier :: "keyboard_h \<Rightarrow> u8 \<Rightarrow> kbd_modifiers_t" where
  "keycode_to_modifier K keycode =
     (if keycode = KC_LCTRL K then KMOD_LCTRL
      else if keycode = KC_RCTRL K then KMOD_RCTRL
      else if keycode = KC_LSHIFT K then KMOD_LSHIFT
      else if keycode = KC_RSHIFT K then KMOD_RSHIFT
      else if keycode = KC_LALT K then KMOD_LALT
      else if keycode = KC_RALT K then KMOD_RALT
      else if keycode = KC_CAPS_LOCK K then KMOD_CAPS
      else KMOD_NONE)"

definition keycode_to_ctrl :: "keyboard_h \<Rightarrow> u8 \<Rightarrow> kbd_input_ctrl_t" where
  "keycode_to_ctrl K keycode = (if keycode = KC_L K then KCTL_CLEAR else KCTL_NONE)"

definition get_modifiers :: "kbd_modifiers_t \<Rightarrow> kbd_modifiers_t" where
  "get_modifiers modifiers =
     (let m = modifiers;
          m = (if m \<inter> KMOD_CTRL \<noteq> {} then m \<union> KMOD_CTRL else m);
          m = (if m \<inter> KMOD_SHIFT \<noteq> {} then m \<union> KMOD_SHIFT else m);
          m = (if m \<inter> KMOD_ALT \<noteq> {} then m \<union> KMOD_ALT else m)
      in m)"

definition keycode_to_input :: "keyboard_h \<Rightarrow> kbd_modifiers_t \<Rightarrow> u8 \<Rightarrow> kbd_input_t" where
  "keycode_to_input K modifiers keycode =
     (if unat keycode \<ge> NUM_KEYS K then KTYP_NONE
      else let m = get_modifiers modifiers in
        if m = KMOD_NONE then KTYP_CHAR (keycode_map 0 keycode)
        else if m = KMOD_SHIFT then KTYP_CHAR (keycode_map 1 keycode)
        else if m = KMOD_CAPS then KTYP_CHAR (keycode_map 2 keycode)
        else if m = KMOD_CAPS \<union> KMOD_SHIFT then KTYP_CHAR (keycode_map 3 keycode)
        else if m = KMOD_CTRL \<or> m = KMOD_CAPS \<union> KMOD_CTRL
          then KTYP_CTRL (keycode_to_ctrl K keycode)
        else KTYP_NONE)"

text \<open>
  \<^verbatim>\<open>process_packet\<close> returns the input event together with the new value of
  \<^verbatim>\<open>modifiers\<close>.
\<close>

definition process_packet :: "keyboard_h \<Rightarrow> u8 \<Rightarrow> kbd_modifiers_t \<Rightarrow> kbd_input_t \<times> kbd_modifiers_t" where
  "process_packet K packet modifiers =
     (let status = (if packet AND 0x80 = 0 then 1 else 0 :: u8);
          keycode = packet AND 0x7F;
          m = keycode_to_modifier K keycode
      in if m \<noteq> KMOD_NONE then
           (if m = KMOD_CAPS then
              (if status = 1 then (KTYP_NONE, toggle_modifier_bit m modifiers)
               else (KTYP_NONE, modifiers))
            else (KTYP_NONE, set_modifier_bit status m modifiers))
         else if status = 1 then (keycode_to_input K modifiers keycode, modifiers)
         else (KTYP_NONE, modifiers))"

text \<open>
  A header instance for the concrete checks below: the make codes of PC scancode set 1
  for the keys that have one, and two unused codes for the right-hand Ctrl and Alt.
\<close>

definition scancode_set1 :: keyboard_h where
  "scancode_set1 =
     \<lparr>KC_LCTRL = 0x1D, KC_RCTRL = 0x61, KC_LSHIFT = 0x2A, KC_RSHIFT = 0x36,
      KC_LALT = 0x38, KC_RALT = 0x64, KC_CAPS_LOCK = 0x3A, KC_L = 0x26, NUM_KEYS = 58\<rparr>"

section \<open>idt.c\<close>

subsection \<open>The register snapshot and the calls that leave the file\<close>

text \<open>
  \<^verbatim>\<open>int_regs_t\<close> is declared in \<^verbatim>\<open>idt.h\<close>, which is not among the sources; its
  fields are the ones \<^verbatim>\<open>dump_registers\<close> prints, in that order.
\<close>

record int_regs_t =
  int_num :: u32
  error_code :: u32
  eax :: u32
  ebx :: u32
  ecx :: u32
  edx :: u32
  esi :: u32
  edi :: u32
  ebp :: u32
  esp :: u32
  eip :: u32
  eflags :: u32
  cs :: u32
  ds :: u32
  es :: u32
  fs :: u32
  gs :: u32
  ss :: u32
  cr0 :: u32
  cr2 :: u32
  cr3 :: u32
  cr4 :: u32

text \<open>
  Modelled from the spec: \<^verbatim>\<open>signal.h\<close> is not among the sources;
  "\<^verbatim>\<open>raise_signal(pid, signal_kind)\<close> where \<^verbatim>\<open>signal_kind\<close> is one of DivideByZero, Fault".
\<close>

datatype signal = SIG_DIV_ZERO | SIG_SEGFAULT

datatype printf_arg = Str string | Num u32

text \<open>
  Every call to a function defined outside idt.c is an entry of a log, in the order of
  the calls, with its arguments. Such a function is taken to return, except
  \<^verbatim>\<open>loop\<close> ("Puts the processor into an infinite loop", lib.h) and \<^verbatim>\<open>halt\<close>.
  \<^verbatim>\<open>Callback\<close> is the call through a registered function pointer.
\<close>

datatype extern_call =
    Debugf string "printf_arg list"
  | Printf string "printf_arg list"
  | Clear
  | Loop
  | Signal_raise u32 signal
  | Signal_handle_all int_regs_t
  | Irq_handle_interrupt u32
  | Syscall_handle u32 u32 u32 int_regs_t u32
  | Callback u32
  | Send_eoi u32
  | Enable_irq u32
  | Disable_irq u32

text \<open>
  What idt.c takes from the rest of the kernel: the segment selector and vector macros
  of \<^verbatim>\<open>x86_desc.h\<close> and \<^verbatim>\<open>idt.h\<close>, the pid of the process that
  \<^verbatim>\<open>get_executing_pcb\<close> returns, and what \<^verbatim>\<open>syscall_handle\<close> and
  \<^verbatim>\<open>signal_handle_all\<close> return or leave in the snapshot. None of them is among the
  sources; they are parameters.
\<close>

record kernel =
  USER_CS :: u32
  INT_IRQ0 :: u32
  INT_IRQ15 :: u32
  INT_SYSCALL :: u32
  executing_pid :: u32
  syscall_handle :: "u32 \<Rightarrow> u32 \<Rightarrow> u32 \<Rightarrow> int_regs_t \<Rightarrow> u32 \<Rightarrow> u32"
  signal_handle_all :: "int_regs_t \<Rightarrow> int_regs_t"

text \<open>
  \<^verbatim>\<open>NUM_EXC\<close> and \<^verbatim>\<open>EXC_DE\<close> are macros of \<^verbatim>\<open>idt.h\<close> too, but the sources fix
  them: \<^verbatim>\<open>exception_names\<close> has one entry per exception vector and
  \<^verbatim>\<open>idt_init\<close> writes one handler per entry, 20 in all, and the older revision's
  table, indexed by the vector, has \<^verbatim>\<open>{EXC_DE, "Divide error exception"}\<close> at index 0.
\<close>

definition NUM_EXC :: u32 where "NUM_EXC = 20"

definition EXC_DE :: u32 where "EXC_DE = 0"

definition exception_names :: "string list" where
  "exception_names =
     [''Divide error exception'',
      ''Debug exception'',
      ''Nonmaskable interrupt'',
      ''Breakpoint exception'',
      ''Overflow exception'',
      ''Bound range exceeded exception'',
      ''Invalid opcode exception'',
      ''Device not available exception'',
      ''Double fault exception'',
      ''Coprocessor segment overrun'',
      ''Invalid TSS exception'',
      ''Segment not present'',
      ''Stack fault exception'',
      ''General protection exception'',
      ''Page-fault exception'',
      ''Entry reserved'',
      ''Floating-point error'',
      ''Alignment check exception'',
      ''Machine-check exception'',
      ''SIMD floating-point exception'']"

text \<open>
  \<^verbatim>\<open>exception_names[n]\<close>. The callers pass a vector below \<^verbatim>\<open>NUM_EXC\<close>; the name
  only reaches a log message, and past the table the model logs the empty string.
\<close>

definition exception_name :: "u32 \<Rightarrow> string" where
  "exception_name n =
     (if unat n < length exception_names then exception_names ! unat n else [])"

text \<open>The outcome of a handler: it returns, or the processor never leaves it.\<close>

datatype outcome =
    Returns int_regs_t "extern_call list"
  | Never_returns "extern_call list"

subsection \<open>The current revision (student-distrib/idt.c)\<close>

definition dump_registers :: "int_regs_t \<Rightarrow> extern_call list" where
  "dump_registers regs =
     [Printf ''int_num:    0x%#x\<newline>'' [Num (int_num regs)],
      Printf ''error_code: 0x%#x\<newline>'' [Num (error_code regs)],
      Printf ''eax:        0x%#x\<newline>'' [Num (eax regs)],
      Printf ''ebx:        0x%#x\<newline>'' [Num (ebx regs)],
      Printf ''ecx:        0x%#x\<newline>'' [Num (ecx regs)],
      Printf ''edx:        0x%#x\<newline>'' [Num (edx regs)],
      Printf ''esi:        0x%#x\<newline>'' [Num (esi regs)],
      Printf ''edi:        0x%#x\<newline>'' [Num (edi regs)],
      Printf ''ebp:        0x%#x\<newline>'' [Num (ebp regs)],
      Printf ''esp:        0x%#x\<newline>'' [Num (esp regs)],
      Printf ''eip:        0x%#x\<newline>'' [Num (eip regs)],
      Printf ''eflags:     0x%#x\<newline>'' [Num (eflags regs)],
      Printf ''cs:         0x%#x\<newline>'' [Num (cs regs)],
      Printf ''ds:         0x%#x\<newline>'' [Num (ds regs)],
      Printf ''es:         0x%#x\<newline>'' [Num (es regs)],
      Printf ''fs:         0x%#x\<newline>'' [Num (fs regs)],
      Printf ''gs:         0x%#x\<newline>'' [Num (gs regs)],
      Printf ''ss:         0x%#x\<newline>'' [Num (ss regs)],
      Printf ''cr0:        0x%#x\<newline>'' [Num (cr0 regs)],
      Printf ''cr2:        0x%#x\<newline>'' [Num (cr2 regs)],
      Printf ''cr3:        0x%#x\<newline>'' [Num (cr3 regs)],
      Printf ''cr4:        0x%#x\<newline>'' [Num (cr4 regs)]]"

definition handle_user_exception :: "kernel \<Rightarrow> u32 \<Rightarrow> extern_call list" where
  "handle_user_exception E n =
     [Debugf ''Userspace exception: %s\<newline>'' [Str (exception_name n)],
      if n = EXC_DE then Signal_raise (executing_pid E) SIG_DIV_ZERO
      else Signal_raise (executing_pid E) SIG_SEGFAULT]"

definition handle_exception :: "kernel \<Rightarrow> int_regs_t \<Rightarrow> outcome" where
  "handle_exception E regs =
     (if cs regs = USER_CS E then Returns regs (handle_user_exception E (int_num regs))
      else Never_returns
             ([Clear,
               Printf ''****************************************\<newline>'' [],
               Printf ''Exception: %s\<newline>'' [Str (exception_name (int_num regs))],
               Printf ''****************************************\<newline>'' []]
              @ dump_registers regs @ [Loop]))"

text \<open>
  \<^verbatim>\<open>handle_irq\<close> of this revision only forwards the line to \<^verbatim>\<open>irq.c\<close>. It is
  renamed, since the older revision's \<^verbatim>\<open>handle_irq\<close> is modelled below.
\<close>

definition handle_irq_forward :: "kernel \<Rightarrow> int_regs_t \<Rightarrow> outcome" where
  "handle_irq_forward E regs =
     (let irq_num = int_num regs - INT_IRQ0 E
      in Returns regs [Irq_handle_interrupt irq_num])"

definition handle_syscall :: "kernel \<Rightarrow> int_regs_t \<Rightarrow> outcome" where
  "handle_syscall E regs =
     (let r = syscall_handle E (ebx regs) (ecx regs) (edx regs) regs (eax regs)
      in Returns (regs\<lparr>eax := r\<rparr>)
           [Debugf ''Syscall: %d\<newline>'' [Num (eax regs)],
            Syscall_handle (ebx regs) (ecx regs) (edx regs) regs (eax regs),
            Debugf ''Return value: 0x%#x\<newline>'' [Num r]])"

definition idt_handle_interrupt :: "kernel \<Rightarrow> int_regs_t \<Rightarrow> outcome" where
  "idt_handle_interrupt E regs =
     (case (if int_num regs < NUM_EXC then handle_exception E regs
            else if int_num regs \<ge> INT_IRQ0 E \<and> int_num regs \<le> INT_IRQ15 E
              then handle_irq_forward E regs
            else if int_num regs = INT_SYSCALL E then handle_syscall E regs
            else Returns regs [Debugf ''Unknown interrupt: %d\<newline>'' [Num (int_num regs)]])
      of Never_returns calls \<Rightarrow> Never_returns calls
       | Returns regs' calls \<Rightarrow>
           if cs regs' = USER_CS E
           then Returns (signal_handle_all E regs') (calls @ [Signal_handle_all regs'])
           else Returns regs' calls)"

text \<open>The signals raised in a log, with the process each is raised against.\<close>

fun signals_raised :: "extern_call list \<Rightarrow> (u32 \<times> signal) list" where
  "signals_raised [] = []"
| "signals_raised (Signal_raise p s # xs) = (p, s) # signals_raised xs"
| "signals_raised (_ # xs) = signals_raised xs"

text \<open>Whether a handler returns, and the external calls it makes in either case.\<close>

definition returns :: "outcome \<Rightarrow> bool" where
  "returns r = (case r of Returns _ _ \<Rightarrow> True | Never_returns _ \<Rightarrow> False)"

definition calls_of :: "outcome \<Rightarrow> extern_call list" where
  "calls_of r = (case r of Returns _ c \<Rightarrow> c | Never_returns c \<Rightarrow> c)"

subsection \<open>The older revision: the IRQ registry\<close>

text \<open>
  A function pointer is its address, \<^verbatim>\<open>NULL\<close> is 0. The global
  \<^verbatim>\<open>irq_handlers\<close> is a table of 16 handlers, of which the code uses the field
  \<^verbatim>\<open>callback\<close>; the table is a function of the index, since C does not check it
  (an index past 15 is memory behind the table). The state carries the log of the
  external calls made so far. A registered callback is driver code outside the file:
  its call is logged and it is taken to return without touching the table.
\<close>

definition NULL :: u32 where "NULL = 0"

record irq_state =
  irq_handlers :: "u32 \<Rightarrow> u32"
  calls :: "extern_call list"

definition call :: "extern_call \<Rightarrow> irq_state \<Rightarrow> irq_state" where
  "call c st = st\<lparr>calls := calls st @ [c]\<rparr>"

text \<open>
  \<^verbatim>\<open>irq0\<close> is the macro \<^verbatim>\<open>INT_IRQ0\<close>.
\<close>

definition handle_irq :: "u32 \<Rightarrow> int_regs_t \<Rightarrow> irq_state \<Rightarrow> irq_state" where
  "handle_irq irq0 regs st =
     (let irq_num = int_num regs - irq0;
          handler = irq_handlers st irq_num;
          st = call (Debugf ''IRQ interrupt: %d\<newline>'' [Num irq_num]) st;
          st = (if handler \<noteq> NULL then call (Callback handler) st else st)
      in call (Send_eoi irq_num) st)"

text \<open>
  \<^verbatim>\<open>ASSERT\<close> is a macro of \<^verbatim>\<open>debug.h\<close>, not among the sources: a failed
  assertion ends the run, the result \<^verbatim>\<open>None\<close>. The first conjunct of the asserted
  condition, \<^verbatim>\<open>irq_num >= 0\<close>, holds of every unsigned number.
\<close>

definition register_irq_handler :: "u32 \<Rightarrow> u32 \<Rightarrow> irq_state \<Rightarrow> irq_state option" where
  "register_irq_handler irq_num callback st =
     (if \<not> (irq_num \<ge> 0 \<and> irq_num < 16) then None
      else Some (call (Enable_irq irq_num)
                  (st\<lparr>irq_handlers := (irq_handlers st)(irq_num := callback)\<rparr>)))"

definition unregister_irq_handler :: "u32 \<Rightarrow> irq_state \<Rightarrow> irq_state option" where
  "unregister_irq_handler irq_num st =
     (if \<not> (irq_num \<ge> 0 \<and> irq_num < 16) then None
      else Some ((call (Disable_irq irq_num) st)
                   \<lparr>irq_handlers := (irq_handlers st)(irq_num := NULL)\<rparr>))"

section \<open>terminal.c\<close>

subsection \<open>Machine integers and memory\<close>

text \<open>
  An \<^verbatim>\<open>int32_t\<close> is an integer; where the C code computes, the result is brought
  back into the 32-bit two's complement range by \<open>s32\<close>, as the x86 instructions do.
\<close>

definition s32 :: "int \<Rightarrow> int" where
  "s32 v = (v + 2 ^ 31) mod 2 ^ 32 - 2 ^ 31"

text \<open>
  An array or a pointer into memory is a function from the offset to the byte there.
  C checks no index, so an offset outside the array is the memory around it.
  \<^verbatim>\<open>memmove\<close> and \<^verbatim>\<open>memset\<close> are declared in lib.h and have the meaning of the C
  library: \<^verbatim>\<open>memmove\<close> copies as if through a temporary buffer.
\<close>

type_synonym mem = "int \<Rightarrow> char"

definition memmove :: "mem \<Rightarrow> int \<Rightarrow> int \<Rightarrow> int \<Rightarrow> mem" where
  "memmove m dest src n = (\<lambda>a. if dest \<le> a \<and> a < dest + n then m (src + (a - dest)) else m a)"

definition memset :: "mem \<Rightarrow> int \<Rightarrow> char \<Rightarrow> int \<Rightarrow> mem" where
  "memset m s c n = (\<lambda>a. if s \<le> a \<and> a < s + n then c else m a)"

subsection \<open>Terminal state\<close>

definition NUM_COLS :: int where "NUM_COLS = 80"
definition NUM_ROWS :: int where "NUM_ROWS = 25"
definition ATTRIB :: char where "ATTRIB = CHR 0x07"

record cursor_pos_t =
  logical_x :: int
  screen_x :: int
  screen_y :: int

text \<open>
  \<^verbatim>\<open>input_buf_t\<close> is declared in the revision of terminal.h that belongs to this
  terminal.c, which is not among the sources: the code uses an array \<^verbatim>\<open>buf\<close> of
  \<^verbatim>\<open>TERMINAL_BUF_SIZE\<close> bytes and an \<^verbatim>\<open>int32_t count\<close>. The macro
  \<^verbatim>\<open>TERMINAL_BUF_SIZE\<close> is the first argument of every function that uses it.
\<close>

record input_buf_t =
  buf :: mem
  count :: int

record terminal_state_t =
  input :: input_buf_t
  cursor :: cursor_pos_t
  video_mem :: mem

text \<open>
  \<^verbatim>\<open>get_executing_terminal\<close> returns \<^verbatim>\<open>&terminal_states[0]\<close>: the functions
  below take that terminal's state and return it updated. \<^verbatim>\<open>debugf\<close> only logs
  and is left out.
\<close>

subsection \<open>Output\<close>

definition terminal_scroll_down :: "terminal_state_t \<Rightarrow> terminal_state_t" where
  "terminal_scroll_down term =
     (let bytes_per_row = s32 (NUM_COLS * 2);
          shift_count = s32 (s32 ((NUM_COLS * NUM_ROWS) * 2) - bytes_per_row);
          vm = memmove (video_mem term) 0 bytes_per_row shift_count;
          vm = memset vm shift_count (CHR 0x00) bytes_per_row
      in term\<lparr>video_mem := vm\<rparr>)"

definition terminal_write_char :: "terminal_state_t \<Rightarrow> char \<Rightarrow> terminal_state_t" where
  "terminal_write_char term c =
     (let x = screen_x (cursor term);
          y = screen_y (cursor term);
          cell = s32 (s32 (s32 (y * NUM_COLS) + x) * 2)
      in term\<lparr>video_mem := (video_mem term)(s32 (cell + 0) := c, s32 (cell + 1) := ATTRIB)\<rparr>)"

definition terminal_putc :: "char \<Rightarrow> terminal_state_t \<Rightarrow> terminal_state_t" where
  "terminal_putc c term =
     (if c = CHR 0x0A \<or> c = CHR 0x0D then
        let term = cursor_update (logical_x_update (\<lambda>_. 0)) term;
            term = cursor_update (screen_x_update (\<lambda>_. 0)) term;
            term = cursor_update (screen_y_update (\<lambda>y. s32 (y + 1))) term
        in if screen_y (cursor term) \<ge> NUM_ROWS then
             cursor_update (screen_y_update (\<lambda>y. s32 (y - 1))) (terminal_scroll_down term)
           else term
      else if c = CHR 0x08 then
        if logical_x (cursor term) > 0 then
          let term = cursor_update (logical_x_update (\<lambda>x. s32 (x - 1))) term;
              term = cursor_update (screen_x_update (\<lambda>x. s32 (x - 1))) term;
              term = (if screen_x (cursor term) < 0 then
                        cursor_update (screen_x_update (\<lambda>x. s32 (x + NUM_COLS)))
                          (cursor_update (screen_y_update (\<lambda>y. s32 (y - 1))) term)
                      else term)
          in terminal_write_char term CHR '' ''
        else term
      else
        let term = terminal_write_char term c;
            term = cursor_update (logical_x_update (\<lambda>x. s32 (x + 1))) term;
            term = cursor_update (screen_x_update (\<lambda>x. s32 (x + 1))) term;
            term = (if screen_x (cursor term) \<ge> NUM_COLS then
                      cursor_update (screen_x_update (\<lambda>x. s32 (x - NUM_COLS)))
                        (cursor_update (screen_y_update (\<lambda>y. s32 (y + 1))) term)
                    else term)
        in if screen_y (cursor term) \<ge> NUM_ROWS then
             cursor_update (screen_y_update (\<lambda>y. s32 (y - 1))) (terminal_scroll_down term)
           else term)"

text \<open>The loop of \<^verbatim>\<open>terminal_clear\<close>, from its counter \<open>i\<close> on.\<close>

function clear_loop :: "int \<Rightarrow> mem \<Rightarrow> mem" where
  "clear_loop i vm =
     (if i < NUM_ROWS * NUM_COLS then
        clear_loop (i + 1) (vm(i * 2 + 0 := CHR '' '', i * 2 + 1 := ATTRIB))
      else vm)"
  by pat_completeness auto
termination
  by (relation "measure (\<lambda>(i, vm). nat (NUM_ROWS * NUM_COLS - i))") auto

declare clear_loop.simps [simp del]

definition terminal_clear :: "terminal_state_t \<Rightarrow> terminal_state_t" where
  "terminal_clear term =
     (let term = term\<lparr>video_mem := clear_loop 0 (video_mem term)\<rparr>;
          term = cursor_update (logical_x_update (\<lambda>_. 0)) term;
          term = cursor_update (screen_x_update (\<lambda>_. 0)) term;
          term = cursor_update (screen_y_update (\<lambda>_. 0)) term
      in term)"

text \<open>
  \<^verbatim>\<open>terminal_write\<close>: the list is the \<^verbatim>\<open>nbytes\<close> bytes at \<^verbatim>\<open>buf\<close>. The result
  is the terminal state and the returned count.
\<close>

definition terminal_write :: "char list \<Rightarrow> terminal_state_t \<Rightarrow> terminal_state_t \<times> int" where
  "terminal_write src term = (fold terminal_putc src term, int (length src))"

subsection \<open>Input\<close>

text \<open>
  The stored count and the loop counters of the input functions move by one between
  bounds they are compared with first, and \<^verbatim>\<open>terminal_read\<close> subtracts from the
  count no more than it holds: on 32-bit values none of these operations overflows, and
  they are written without \<open>s32\<close>.
\<close>

definition handle_ctrl_input :: "kbd_input_ctrl_t \<Rightarrow> terminal_state_t \<Rightarrow> terminal_state_t" where
  "handle_ctrl_input ctrl term =
     (case ctrl of
        KCTL_CLEAR \<Rightarrow> terminal_clear term
      | KCTL_TERM1 \<Rightarrow> term \<comment> \<open>\<^verbatim>\<open>set_display_terminal(0)\<close> writes the global
                                \<^verbatim>\<open>display_terminal\<close> only\<close>
      | KCTL_TERM2 \<Rightarrow> term
      | KCTL_TERM3 \<Rightarrow> term
      | KCTL_NONE \<Rightarrow> term)"

definition handle_char_input :: "int \<Rightarrow> char \<Rightarrow> terminal_state_t \<Rightarrow> terminal_state_t" where
  "handle_char_input TERMINAL_BUF_SIZE c term =
     (if c = CHR 0x08 \<and> count (input term) > 0 then
        terminal_putc c (input_update (count_update (\<lambda>n. n - 1)) term)
      else if c \<noteq> CHR 0x08 \<and> count (input term) < TERMINAL_BUF_SIZE then
        terminal_putc c
          (input_update (\<lambda>ib. ib\<lparr>buf := (buf ib)(count ib := c), count := count ib + 1\<rparr>) term)
      else term)"

definition terminal_handle_input :: "int \<Rightarrow> kbd_input_t \<Rightarrow> terminal_state_t \<Rightarrow> terminal_state_t" where
  "terminal_handle_input TERMINAL_BUF_SIZE inp term =
     (case inp of
        KTYP_CHAR c \<Rightarrow> handle_char_input TERMINAL_BUF_SIZE c term
      | KTYP_CTRL ctrl \<Rightarrow> handle_ctrl_input ctrl term
      | KTYP_NONE \<Rightarrow> term)"

subsection \<open>The blocking read\<close>

text \<open>
  \<^verbatim>\<open>wait_until_readable\<close> sleeps in \<^verbatim>\<open>sti(); hlt(); cli();\<close>: interrupts are
  served only there. A wake-up is the list of inputs that the keyboard handler passes to
  \<^verbatim>\<open>terminal_handle_input\<close> between one \<^verbatim>\<open>hlt\<close> and the \<^verbatim>\<open>cli\<close> after it,
  in order; an interrupt of another device leaves the terminal as it is, so a wake-up
  without keyboard input is the empty list. The function takes the wake-ups to come.
  When none is left the processor halts for good: the result is \<^verbatim>\<open>None\<close>.
\<close>

type_synonym wakeup = "kbd_input_t list"

text \<open>The inner loop of \<^verbatim>\<open>wait_until_readable\<close>, from its counter \<open>i\<close> on.\<close>

function scan_newline :: "input_buf_t \<Rightarrow> int \<Rightarrow> int option" where
  "scan_newline input_buf i =
     (if i < count input_buf then
        (if buf input_buf i = CHR 0x0A then Some (i + 1)
         else scan_newline input_buf (i + 1))
      else None)"
  by pat_completeness auto
termination
  by (relation "measure (\<lambda>(input_buf, i). nat (count input_buf - i))") auto

declare scan_newline.simps [simp del]

fun wait_until_readable ::
  "int \<Rightarrow> wakeup list \<Rightarrow> terminal_state_t \<Rightarrow> int \<Rightarrow> (int \<times> terminal_state_t \<times> wakeup list) option"
where
  "wait_until_readable TERMINAL_BUF_SIZE [] term nbytes =
     (if nbytes > count (input term) then
        (case scan_newline (input term) 0 of
           Some r \<Rightarrow> Some (r, term, [])
         | None \<Rightarrow> None)
      else Some (nbytes, term, []))"
| "wait_until_readable TERMINAL_BUF_SIZE (w # ws) term nbytes =
     (if nbytes > count (input term) then
        (case scan_newline (input term) 0 of
           Some r \<Rightarrow> Some (r, term, w # ws)
         | None \<Rightarrow>
             wait_until_readable TERMINAL_BUF_SIZE ws
               (fold (terminal_handle_input TERMINAL_BUF_SIZE) w term) nbytes)
      else Some (nbytes, term, w # ws))"

text \<open>
  The copy loop of \<^verbatim>\<open>terminal_read\<close>, from its counter \<open>i\<close> on; \<open>dest\<close> is what
  has been written to the caller's buffer so far.
\<close>

function copy_loop :: "input_buf_t \<Rightarrow> int \<Rightarrow> int \<Rightarrow> char list \<Rightarrow> int \<times> char list" where
  "copy_loop input_buf nbytes i dest =
     (if i < nbytes then copy_loop input_buf nbytes (i + 1) (dest @ [buf input_buf i])
      else (i, dest))"
  by pat_completeness auto
termination
  by (relation "measure (\<lambda>(input_buf, nbytes, i, dest). nat (nbytes - i))") auto

declare copy_loop.simps [simp del]

text \<open>
  \<^verbatim>\<open>terminal_read\<close> takes the wake-ups to come, the terminal state and
  \<^verbatim>\<open>nbytes\<close>. When it returns, the result is the return value, the bytes written to
  the caller's buffer, the terminal state and the wake-ups not yet consumed.
\<close>

definition terminal_read ::
  "int \<Rightarrow> wakeup list \<Rightarrow> terminal_state_t \<Rightarrow> int
     \<Rightarrow> (int \<times> char list \<times> terminal_state_t \<times> wakeup list) option"
where
  "terminal_read TERMINAL_BUF_SIZE ws term nbytes =
     (let nbytes = (if nbytes > TERMINAL_BUF_SIZE then TERMINAL_BUF_SIZE else nbytes)
      in case wait_until_readable TERMINAL_BUF_SIZE ws term nbytes of
           None \<Rightarrow> None
         | Some (nbytes, term, ws') \<Rightarrow>
             let (i, dest) = copy_loop (input term) nbytes 0 [];
                 term = input_update (buf_update (\<lambda>b. memmove b 0 i i)) term;
                 term = input_update (count_update (\<lambda>n. n - i)) term
             in Some (i, dest, term, ws'))"

section \<open>Predicates and concrete states used in the statements\<close>

text \<open>
  The cursor invariant of the data model: \<^verbatim>\<open>screen_x\<close> is a column of the screen
  and \<^verbatim>\<open>logical_x\<close> is not negative.
\<close>

definition cursor_ok :: "terminal_state_t \<Rightarrow> bool" where
  "cursor_ok term \<longleftrightarrow>
     0 \<le> screen_x (cursor term) \<and> screen_x (cursor term) < NUM_COLS
     \<and> 0 \<le> logical_x (cursor term)"

definition INT32_MAX :: int where "INT32_MAX = 2147483647"

text \<open>Memory that holds the given bytes from offset 0 on, and 0 elsewhere.\<close>

definition mem_of :: "char list \<Rightarrow> mem" where
  "mem_of xs = (\<lambda>a. if 0 \<le> a \<and> a < int (length xs) then xs ! nat a else CHR 0x00)"

text \<open>
  A terminal whose input buffer holds exactly the given bytes, the cursor at the top
  left.
\<close>

definition term_with :: "char list \<Rightarrow> terminal_state_t" where
  "term_with xs =
     \<lparr>input = \<lparr>buf = mem_of xs, count = int (length xs)\<rparr>,
      cursor = \<lparr>logical_x = 0, screen_x = 0, screen_y = 0\<rparr>,
      video_mem = (\<lambda>_. CHR 0x00)\<rparr>"

text \<open>
  A terminal on whose bottom row a logical line of \<open>2\<^sup>3\<^sup>1 - 1\<close> characters ends:
  the largest \<^verbatim>\<open>int32_t\<close> is 47 modulo 80.
\<close>

definition term_long_line :: terminal_state_t where
  "term_long_line =
     (term_with [])\<lparr>cursor := \<lparr>logical_x = 2147483647, screen_x = 47, screen_y = 24\<rparr>\<rparr>"

text \<open>
  A plain character is one that \<^verbatim>\<open>terminal_putc\<close> writes to the screen: not a
  newline, not a carriage return (which the code treats as a newline) and not a
  backspace.
\<close>

definition plain :: "char \<Rightarrow> bool" where
  "plain c \<longleftrightarrow> c \<noteq> CHR 0x0A \<and> c \<noteq> CHR 0x0D \<and> c \<noteq> CHR 0x08"

text \<open>The cells of screen row \<open>y\<close>, left to right: character byte and attribute byte.\<close>

definition screen_row :: "terminal_state_t \<Rightarrow> int \<Rightarrow> (char \<times> char) list" where
  "screen_row term y =
     map (\<lambda>x. (video_mem term ((y * NUM_COLS + x) * 2),
               video_mem term ((y * NUM_COLS + x) * 2 + 1)))
       [0..NUM_COLS - 1]"

text \<open>
  One character more than the screen holds: a row of \<open>a\<close>, a row of \<open>b\<close>, and \<open>c\<close>
  from there on.
\<close>

definition screenful_and_one :: "char list" where
  "screenful_and_one =
     replicate 80 CHR ''a'' @ replicate 80 CHR ''b'' @ replicate 1841 CHR ''c''"

text \<open>
  As many bytes, none a newline or a backspace, with a carriage return after the first
  three rows.
\<close>

definition screenful_with_cr :: "char list" where
  "screenful_with_cr =
     replicate 80 CHR ''a'' @ replicate 80 CHR ''b'' @ replicate 80 CHR ''c'' @ [CHR 0x0D]
     @ replicate 1760 CHR ''d''"

text \<open>A register snapshot taken in user code, one taken in kernel code, and a kernel.\<close>

definition user_regs :: int_regs_t where
  "user_regs =
     \<lparr>int_num = 0, error_code = 0, eax = 1, ebx = 2, ecx = 3, edx = 4, esi = 5, edi = 6,
      ebp = 7, esp = 8, eip = 9, eflags = 10, cs = 0x23, ds = 0x2B, es = 0x2B, fs = 0x2B,
      gs = 0x2B, ss = 0x2B, cr0 = 11, cr2 = 12, cr3 = 13, cr4 = 14\<rparr>"

definition kernel_regs :: int_regs_t where
  "kernel_regs = user_regs\<lparr>cs := 0x10, int_num := 13\<rparr>"

definition kernel0 :: kernel where
  "kernel0 =
     \<lparr>USER_CS = 0x23, INT_IRQ0 = 0x20, INT_IRQ15 = 0x2F, INT_SYSCALL = 0x80,
      executing_pid = 1, syscall_handle = (\<lambda>a b c r n. 0), signal_handle_all = (\<lambda>r. r)\<rparr>"

definition irq_state0 :: irq_state where
  "irq_state0 = \<lparr>irq_handlers = (\<lambda>_. NULL), calls = []\<rparr>"

chapter \<open>Properties\<close>

section \<open>The keyboard decoder\<close>

lemmas KMOD_defs =
  KMOD_NONE_def KMOD_LCTRL_def KMOD_RCTRL_def KMOD_LSHIFT_def KMOD_RSHIFT_def
  KMOD_LALT_def KMOD_RALT_def KMOD_CAPS_def KMOD_CTRL_def KMOD_SHIFT_def KMOD_ALT_def

lemma keycode_map_0x1E:
  "keycode_map 0 0x1E = CHR ''a''" "keycode_map (Suc 0) 0x1E = CHR ''A''"
  "keycode_map 2 0x1E = CHR ''A''" "keycode_map 3 0x1E = CHR ''a''"
  by (simp_all add: keycode_map_def keycode_map_neutral_def keycode_map_shift_def
      keycode_map_caps_def keycode_map_shift_caps_def nth_append)

lemma get_modifiers_shift:
  assumes "m \<noteq> {}" "m \<subseteq> KMOD_SHIFT"
  shows "get_modifiers m = KMOD_SHIFT"
    and "get_modifiers (KMOD_CAPS \<union> m) = KMOD_CAPS \<union> KMOD_SHIFT"
  using assms by (auto simp: get_modifiers_def KMOD_defs Let_def)

lemma get_modifiers_plain:
  "get_modifiers KMOD_NONE = KMOD_NONE" "get_modifiers KMOD_CAPS = KMOD_CAPS"
  by (auto simp: get_modifiers_def KMOD_defs Let_def)

lemma KMOD_distinct:
  "KMOD_SHIFT \<noteq> KMOD_NONE" "KMOD_CAPS \<noteq> KMOD_NONE" "KMOD_CAPS \<noteq> KMOD_SHIFT"
  "KMOD_CAPS \<union> KMOD_SHIFT \<noteq> KMOD_NONE" "KMOD_CAPS \<union> KMOD_SHIFT \<noteq> KMOD_SHIFT"
  "KMOD_CAPS \<union> KMOD_SHIFT \<noteq> KMOD_CAPS"
  by (auto simp: KMOD_defs)

lemma press_0x1E:
  assumes "0x1E \<notin> {KC_LCTRL K, KC_RCTRL K, KC_LSHIFT K, KC_RSHIFT K, KC_LALT K,
                   KC_RALT K, KC_CAPS_LOCK K}"
  shows "process_packet K 0x1E m = (keycode_to_input K m 0x1E, m)"
  using assms by (simp add: process_packet_def keycode_to_modifier_def Let_def)

lemma release_0x1E:
  assumes "0x1E \<notin> {KC_LCTRL K, KC_RCTRL K, KC_LSHIFT K, KC_RSHIFT K, KC_LALT K,
                   KC_RALT K, KC_CAPS_LOCK K}"
  shows "process_packet K 0x9E m = (KTYP_NONE, m)"
  using assms by (simp add: process_packet_def keycode_to_modifier_def Let_def)

text \<open>
  C9. Decoding the press packet 0x1E yields the character \<open>a\<close> with no modifier held,
  \<open>A\<close> with Shift held (either Shift key or both), \<open>A\<close> with Caps on, and \<open>a\<close> with
  Caps on and Shift held; decoding the release packet 0x9E yields \<^verbatim>\<open>KTYP_NONE\<close> in
  every modifier state, and leaves the state as it is. The header is any in which 0x1E
  is not the code of a modifier key and lies below \<^verbatim>\<open>NUM_KEYS\<close>.
\<close>

theorem decode_a:
  assumes "0x1E \<notin> {KC_LCTRL K, KC_RCTRL K, KC_LSHIFT K, KC_RSHIFT K, KC_LALT K,
                   KC_RALT K, KC_CAPS_LOCK K}"
    and "0x1E < NUM_KEYS K"
  shows "process_packet K 0x1E KMOD_NONE = (KTYP_CHAR CHR ''a'', KMOD_NONE)
       \<and> (\<forall>shift. shift \<noteq> {} \<and> shift \<subseteq> KMOD_SHIFT \<longrightarrow>
             process_packet K 0x1E shift = (KTYP_CHAR CHR ''A'', shift))
       \<and> process_packet K 0x1E KMOD_CAPS = (KTYP_CHAR CHR ''A'', KMOD_CAPS)
       \<and> (\<forall>shift. shift \<noteq> {} \<and> shift \<subseteq> KMOD_SHIFT \<longrightarrow>
             process_packet K 0x1E (KMOD_CAPS \<union> shift)
               = (KTYP_CHAR CHR ''a'', KMOD_CAPS \<union> shift))
       \<and> (\<forall>modifiers. process_packet K 0x9E modifiers = (KTYP_NONE, modifiers))"
  using assms(2)
  by (simp add: press_0x1E [OF assms(1)] release_0x1E [OF assms(1)] keycode_to_input_def
      get_modifiers_shift get_modifiers_plain KMOD_distinct keycode_map_0x1E)

theorem decode_a_witness:
  "0x1E \<notin> {KC_LCTRL scancode_set1, KC_RCTRL scancode_set1, KC_LSHIFT scancode_set1,
            KC_RSHIFT scancode_set1, KC_LALT scancode_set1, KC_RALT scancode_set1,
            KC_CAPS_LOCK scancode_set1}
   \<and> 0x1E < NUM_KEYS scancode_set1
   \<and> process_packet scancode_set1 0x1E KMOD_NONE = (KTYP_CHAR CHR ''a'', KMOD_NONE)
   \<and> process_packet scancode_set1 0x1E KMOD_LSHIFT = (KTYP_CHAR CHR ''A'', KMOD_LSHIFT)
   \<and> process_packet scancode_set1 0x1E KMOD_CAPS = (KTYP_CHAR CHR ''A'', KMOD_CAPS)
   \<and> process_packet scancode_set1 0x1E (KMOD_CAPS \<union> KMOD_RSHIFT)
       = (KTYP_CHAR CHR ''a'', KMOD_CAPS \<union> KMOD_RSHIFT)
   \<and> process_packet scancode_set1 0x9E (KMOD_LCTRL \<union> KMOD_RALT)
       = (KTYP_NONE, KMOD_LCTRL \<union> KMOD_RALT)"
proof -
  have h1: "0x1E \<notin> {KC_LCTRL scancode_set1, KC_RCTRL scancode_set1, KC_LSHIFT scancode_set1,
            KC_RSHIFT scancode_set1, KC_LALT scancode_set1, KC_RALT scancode_set1,
            KC_CAPS_LOCK scancode_set1}"
    by (simp add: scancode_set1_def)
  have h2: "0x1E < NUM_KEYS scancode_set1" by (simp add: scancode_set1_def)
  note t = decode_a [OF h1 h2]
  have l: "KMOD_LSHIFT \<noteq> {} \<and> KMOD_LSHIFT \<subseteq> KMOD_SHIFT" by (simp add: KMOD_defs)
  have r: "KMOD_RSHIFT \<noteq> {} \<and> KMOD_RSHIFT \<subseteq> KMOD_SHIFT" by (simp add: KMOD_defs)
  from t l r h1 h2 show ?thesis by blast
qed

lemma bit_0x80: "bit (0x80 :: u8) n \<longleftrightarrow> n = 7"
proof -
  have p: "(0x80 :: u8) = push_bit 7 1" by simp
  show ?thesis unfolding p
    by (auto simp only: bit_push_bit_iff bit_1_iff possible_bit_word len_bit0 len_num1
        split: if_splits)
qed

lemma bit_0x7F: "bit (0x7F :: u8) n \<longleftrightarrow> n < 7"
proof -
  have m: "(0x7F :: u8) = mask 7" by (simp add: mask_eq_exp_minus_1)
  show ?thesis unfolding m by (auto simp add: bit_mask_iff)
qed

lemma bit7_facts:
  fixes k :: u8
  assumes "k AND 0x80 = 0"
  shows "k AND 0x7F = k" "(k OR 0x80) AND 0x7F = k" "(k OR 0x80) AND 0x80 \<noteq> 0"
proof -
  have "bit (k AND 0x80) 7 = bit (0 :: u8) 7" using assms by simp
  then have nb: "\<not> bit k 7" by (simp add: bit_and_iff bit_0x80)
  have lt: "n < 7" if "bit k n" for n
  proof -
    have "n < 8" using bit_imp_le_length [OF that] by simp
    moreover have "n \<noteq> 7" using that nb by auto
    ultimately show ?thesis by simp
  qed
  show "k AND 0x7F = k"
  proof (rule bit_eqI)
    fix n
    show "bit (k AND 0x7F) n = bit k n"
      unfolding bit_and_iff bit_0x7F using lt by blast
  qed
  show "(k OR 0x80) AND 0x7F = k"
  proof (rule bit_eqI)
    fix n
    show "bit ((k OR 0x80) AND 0x7F) n = bit k n"
      unfolding bit_and_iff bit_or_iff bit_0x7F bit_0x80 using lt by auto
  qed
  have "bit ((k OR 0x80) AND 0x80) 7" by (simp add: bit_and_iff bit_or_iff bit_0x80)
  then show "(k OR 0x80) AND 0x80 \<noteq> 0" by auto
qed

text \<open>
  A press and then a release of Left-Shift leave the modifier state without the
  Left-Shift flag, whether or not it was set before.
\<close>

lemma press_release_lshift:
  assumes "KC_LSHIFT K \<notin> {KC_LCTRL K, KC_RCTRL K}" and "KC_LSHIFT K AND 0x80 = 0"
  shows "snd (process_packet K (KC_LSHIFT K OR 0x80)
               (snd (process_packet K (KC_LSHIFT K) modifiers))) = modifiers - KMOD_LSHIFT"
proof -
  have km: "keycode_to_modifier K (KC_LSHIFT K) = KMOD_LSHIFT"
    using assms(1) by (simp add: keycode_to_modifier_def)
  have press: "process_packet K (KC_LSHIFT K) modifiers = (KTYP_NONE, modifiers \<union> KMOD_LSHIFT)"
    using assms(2)
    by (simp add: process_packet_def Let_def bit7_facts km set_modifier_bit_def KMOD_defs)
  have release: "process_packet K (KC_LSHIFT K OR 0x80) m = (KTYP_NONE, m - KMOD_LSHIFT)" for m
    using bit7_facts(3) [OF assms(2)]
    by (simp add: process_packet_def Let_def bit7_facts(2) [OF assms(2)] km
        set_modifier_bit_def KMOD_defs)
  show ?thesis by (auto simp: press release)
qed

text \<open>
  C8 (as amended). For every modifier state in which Left-Shift is not held, processing
  a Left-Shift press packet and then a Left-Shift release packet returns the modifier
  state to its value before the press. The header is any that a C compiler accepts
  (the case labels of \<^verbatim>\<open>keycode_to_modifier\<close> before \<^verbatim>\<open>KC_LSHIFT\<close> differ from
  it) and in which the code of Left-Shift fits the seven keycode bits of a packet.
\<close>

theorem lshift_round_trip:
  assumes "KC_LSHIFT K \<notin> {KC_LCTRL K, KC_RCTRL K}" and "KC_LSHIFT K AND 0x80 = 0"
    and "modifiers \<inter> KMOD_LSHIFT = {}"
  shows "snd (process_packet K (KC_LSHIFT K OR 0x80)
               (snd (process_packet K (KC_LSHIFT K) modifiers))) = modifiers"
  using press_release_lshift [OF assms(1,2), of modifiers] assms(3) by auto

theorem lshift_round_trip_witness:
  "KC_LSHIFT scancode_set1 \<notin> {KC_LCTRL scancode_set1, KC_RCTRL scancode_set1}
   \<and> KC_LSHIFT scancode_set1 AND 0x80 = 0
   \<and> (KMOD_CAPS \<union> KMOD_RSHIFT) \<inter> KMOD_LSHIFT = {}
   \<and> snd (process_packet scancode_set1 0xAA
            (snd (process_packet scancode_set1 0x2A (KMOD_CAPS \<union> KMOD_RSHIFT))))
       = KMOD_CAPS \<union> KMOD_RSHIFT"
  using lshift_round_trip [of scancode_set1 "KMOD_CAPS \<union> KMOD_RSHIFT"]
  by (simp add: scancode_set1_def KMOD_defs)

text \<open>
  C8 as stated fails when Left-Shift is already held before the press (a key that is
  held down repeats its press packet): the release clears the bit that was set before.
\<close>

theorem lshift_round_trip_counterexample:
  "snd (process_packet scancode_set1 0xAA (snd (process_packet scancode_set1 0x2A KMOD_LSHIFT)))
     \<noteq> KMOD_LSHIFT"
  by (simp add: process_packet_def scancode_set1_def keycode_to_modifier_def Let_def
      set_modifier_bit_def KMOD_defs)

section \<open>The trap dispatcher\<close>

lemma signals_raised_append: "signals_raised (xs @ ys) = signals_raised xs @ signals_raised ys"
  by (induction xs rule: signals_raised.induct) simp_all

lemma signals_raised_dump: "signals_raised (dump_registers regs) = []"
  by (simp add: dump_registers_def)

text \<open>
  C3. For every exception vector (\<^verbatim>\<open>int_num < NUM_EXC\<close>) and every register snapshot
  whose code segment is the user code segment, \<^verbatim>\<open>idt_handle_interrupt\<close> returns and
  raises exactly one signal, against the executing process: \<^verbatim>\<open>SIG_DIV_ZERO\<close> for the
  divide error, \<^verbatim>\<open>SIG_SEGFAULT\<close> for every other exception.
\<close>

theorem user_exception_raises_one_signal:
  assumes "int_num regs < NUM_EXC" and "cs regs = USER_CS E"
  shows "returns (idt_handle_interrupt E regs)
       \<and> signals_raised (calls_of (idt_handle_interrupt E regs)) =
           [(executing_pid E, if int_num regs = EXC_DE then SIG_DIV_ZERO else SIG_SEGFAULT)]"
  using assms
  by (simp add: idt_handle_interrupt_def handle_exception_def handle_user_exception_def
      returns_def calls_of_def)

theorem user_exception_raises_one_signal_witness:
  "int_num user_regs < NUM_EXC \<and> cs user_regs = USER_CS kernel0
   \<and> returns (idt_handle_interrupt kernel0 user_regs)
   \<and> signals_raised (calls_of (idt_handle_interrupt kernel0 user_regs)) = [(1, SIG_DIV_ZERO)]
   \<and> int_num (user_regs\<lparr>int_num := 14\<rparr>) < NUM_EXC
   \<and> cs (user_regs\<lparr>int_num := 14\<rparr>) = USER_CS kernel0
   \<and> returns (idt_handle_interrupt kernel0 (user_regs\<lparr>int_num := 14\<rparr>))
   \<and> signals_raised (calls_of (idt_handle_interrupt kernel0 (user_regs\<lparr>int_num := 14\<rparr>)))
       = [(1, SIG_SEGFAULT)]"
  using user_exception_raises_one_signal [of user_regs kernel0]
    user_exception_raises_one_signal [of "user_regs\<lparr>int_num := 14\<rparr>" kernel0]
  by (simp add: user_regs_def kernel0_def NUM_EXC_def EXC_DE_def)

text \<open>
  C4. For every exception vector and every register snapshot whose code segment is not
  the user code segment, \<^verbatim>\<open>idt_handle_interrupt\<close> clears the screen, prints the
  exception, dumps the register snapshot (one line for each of its 22 fields, with the
  field's value, in the order of \<^verbatim>\<open>dump_registers\<close>) and enters \<^verbatim>\<open>loop\<close>: it
  never returns, and it raises no signal.
\<close>

theorem kernel_exception_halts:
  assumes "int_num regs < NUM_EXC" and "cs regs \<noteq> USER_CS E"
  shows "idt_handle_interrupt E regs =
           Never_returns
             [Clear,
              Printf ''****************************************\<newline>'' [],
              Printf ''Exception: %s\<newline>'' [Str (exception_name (int_num regs))],
              Printf ''****************************************\<newline>'' [],
              Printf ''int_num:    0x%#x\<newline>'' [Num (int_num regs)],
              Printf ''error_code: 0x%#x\<newline>'' [Num (error_code regs)],
              Printf ''eax:        0x%#x\<newline>'' [Num (eax regs)],
              Printf ''ebx:        0x%#x\<newline>'' [Num (ebx regs)],
              Printf ''ecx:        0x%#x\<newline>'' [Num (ecx regs)],
              Printf ''edx:        0x%#x\<newline>'' [Num (edx regs)],
              Printf ''esi:        0x%#x\<newline>'' [Num (esi regs)],
              Printf ''edi:        0x%#x\<newline>'' [Num (edi regs)],
              Printf ''ebp:        0x%#x\<newline>'' [Num (ebp regs)],
              Printf ''esp:        0x%#x\<newline>'' [Num (esp regs)],
              Printf ''eip:        0x%#x\<newline>'' [Num (eip regs)],
              Printf ''eflags:     0x%#x\<newline>'' [Num (eflags regs)],
              Printf ''cs:         0x%#x\<newline>'' [Num (cs regs)],
              Printf ''ds:         0x%#x\<newline>'' [Num (ds regs)],
              Printf ''es:         0x%#x\<newline>'' [Num (es regs)],
              Printf ''fs:         0x%#x\<newline>'' [Num (fs regs)],
              Printf ''gs:         0x%#x\<newline>'' [Num (gs regs)],
              Printf ''ss:         0x%#x\<newline>'' [Num (ss regs)],
              Printf ''cr0:        0x%#x\<newline>'' [Num (cr0 regs)],
              Printf ''cr2:        0x%#x\<newline>'' [Num (cr2 regs)],
              Printf ''cr3:        0x%#x\<newline>'' [Num (cr3 regs)],
              Printf ''cr4:        0x%#x\<newline>'' [Num (cr4 regs)],
              Loop]
       \<and> \<not> returns (idt_handle_interrupt E regs)
       \<and> signals_raised (calls_of (idt_handle_interrupt E regs)) = []"
  using assms
  by (simp add: idt_handle_interrupt_def handle_exception_def dump_registers_def returns_def
      calls_of_def)

theorem kernel_exception_halts_witness:
  "int_num kernel_regs < NUM_EXC
   \<and> cs kernel_regs \<noteq> USER_CS kernel0
   \<and> idt_handle_interrupt kernel0 kernel_regs =
         Never_returns
           [Clear,
            Printf ''****************************************\<newline>'' [],
            Printf ''Exception: %s\<newline>'' [Str ''General protection exception''],
            Printf ''****************************************\<newline>'' [],
            Printf ''int_num:    0x%#x\<newline>'' [Num 13],
            Printf ''error_code: 0x%#x\<newline>'' [Num 0],
            Printf ''eax:        0x%#x\<newline>'' [Num 1],
            Printf ''ebx:        0x%#x\<newline>'' [Num 2],
            Printf ''ecx:        0x%#x\<newline>'' [Num 3],
            Printf ''edx:        0x%#x\<newline>'' [Num 4],
            Printf ''esi:        0x%#x\<newline>'' [Num 5],
            Printf ''edi:        0x%#x\<newline>'' [Num 6],
            Printf ''ebp:        0x%#x\<newline>'' [Num 7],
            Printf ''esp:        0x%#x\<newline>'' [Num 8],
            Printf ''eip:        0x%#x\<newline>'' [Num 9],
            Printf ''eflags:     0x%#x\<newline>'' [Num 10],
            Printf ''cs:         0x%#x\<newline>'' [Num 16],
            Printf ''ds:         0x%#x\<newline>'' [Num 43],
            Printf ''es:         0x%#x\<newline>'' [Num 43],
            Printf ''fs:         0x%#x\<newline>'' [Num 43],
            Printf ''gs:         0x%#x\<newline>'' [Num 43],
            Printf ''ss:         0x%#x\<newline>'' [Num 43],
            Printf ''cr0:        0x%#x\<newline>'' [Num 11],
            Printf ''cr2:        0x%#x\<newline>'' [Num 12],
            Printf ''cr3:        0x%#x\<newline>'' [Num 13],
            Printf ''cr4:        0x%#x\<newline>'' [Num 14],
            Loop]
   \<and> \<not> returns (idt_handle_interrupt kernel0 kernel_regs)
   \<and> signals_raised (calls_of (idt_handle_interrupt kernel0 kernel_regs)) = []"
proof -
  have h1: "int_num kernel_regs < NUM_EXC"
    by (simp add: kernel_regs_def user_regs_def NUM_EXC_def)
  have h2: "cs kernel_regs \<noteq> USER_CS kernel0"
    by (simp add: kernel_regs_def user_regs_def kernel0_def)
  have n: "exception_name 13 = ''General protection exception''"
    by (simp add: exception_name_def exception_names_def)
  have f: "int_num kernel_regs = 13" "error_code kernel_regs = 0" "eax kernel_regs = 1"
    "ebx kernel_regs = 2" "ecx kernel_regs = 3" "edx kernel_regs = 4" "esi kernel_regs = 5"
    "edi kernel_regs = 6" "ebp kernel_regs = 7" "esp kernel_regs = 8" "eip kernel_regs = 9"
    "eflags kernel_regs = 10" "cs kernel_regs = 16" "ds kernel_regs = 43"
    "es kernel_regs = 43" "fs kernel_regs = 43" "gs kernel_regs = 43" "ss kernel_regs = 43"
    "cr0 kernel_regs = 11" "cr2 kernel_regs = 12" "cr3 kernel_regs = 13" "cr4 kernel_regs = 14"
    by (simp_all add: kernel_regs_def user_regs_def)
  note t = kernel_exception_halts [OF h1 h2, unfolded f n]
  from t h1 h2 show ?thesis by blast
qed

section \<open>The IRQ registry\<close>

text \<open>
  C5. For every IRQ line below 16: after \<^verbatim>\<open>register_irq_handler\<close> of a callback
  (a function, so not \<^verbatim>\<open>NULL\<close>) on the line, \<^verbatim>\<open>handle_irq\<close> for the line's vector
  calls the callback once and then sends one end-of-interrupt for the line; after
  \<^verbatim>\<open>unregister_irq_handler\<close> it calls no callback and sends one end-of-interrupt.
\<close>

theorem irq_dispatch:
  assumes "line < 16" and "cb \<noteq> NULL" and "int_num regs = irq0 + line"
  shows "(case register_irq_handler line cb st of
            None \<Rightarrow> False
          | Some st' \<Rightarrow>
              calls (handle_irq irq0 regs st') =
                calls st' @ [Debugf ''IRQ interrupt: %d\<newline>'' [Num line],
                             Callback cb, Send_eoi line])
       \<and> (case unregister_irq_handler line st of
            None \<Rightarrow> False
          | Some st' \<Rightarrow>
              calls (handle_irq irq0 regs st') =
                calls st' @ [Debugf ''IRQ interrupt: %d\<newline>'' [Num line], Send_eoi line])"
  using assms
  by (simp add: register_irq_handler_def unregister_irq_handler_def handle_irq_def call_def
      Let_def)

theorem irq_dispatch_witness:
  "(1 :: u32) < 16 \<and> (0x1234 :: u32) \<noteq> NULL
   \<and> int_num (user_regs\<lparr>int_num := 0x21\<rparr>) = 0x20 + 1
   \<and> (case register_irq_handler 1 0x1234 irq_state0 of
            None \<Rightarrow> False
          | Some st' \<Rightarrow>
              calls (handle_irq 0x20 (user_regs\<lparr>int_num := 0x21\<rparr>) st') =
                [Enable_irq 1, Debugf ''IRQ interrupt: %d\<newline>'' [Num 1],
                 Callback 0x1234, Send_eoi 1])
   \<and> (case unregister_irq_handler 1 (irq_state0\<lparr>irq_handlers := (\<lambda>_. 0x1234)\<rparr>) of
            None \<Rightarrow> False
          | Some st' \<Rightarrow>
              calls (handle_irq 0x20 (user_regs\<lparr>int_num := 0x21\<rparr>) st') =
                [Disable_irq 1, Debugf ''IRQ interrupt: %d\<newline>'' [Num 1], Send_eoi 1])"
  using irq_dispatch [of 1 "0x1234" "user_regs\<lparr>int_num := 0x21\<rparr>" "0x20" irq_state0]
    irq_dispatch [of 1 "0x1234" "user_regs\<lparr>int_num := 0x21\<rparr>" "0x20"
      "irq_state0\<lparr>irq_handlers := (\<lambda>_. 0x1234)\<rparr>"]
  by (simp add: user_regs_def irq_state0_def NULL_def register_irq_handler_def
      unregister_irq_handler_def call_def)

section \<open>The terminal\<close>

subsection \<open>Facts about the helper functions\<close>

lemma s32_id: "- 2147483648 \<le> v \<Longrightarrow> v < 2147483648 \<Longrightarrow> s32 v = v"
  by (simp add: s32_def)

lemma input_terminal_scroll_down [simp]: "input (terminal_scroll_down term) = input term"
  by (simp add: terminal_scroll_down_def Let_def)

lemma cursor_terminal_scroll_down [simp]: "cursor (terminal_scroll_down term) = cursor term"
  by (simp add: terminal_scroll_down_def Let_def)

lemma input_terminal_write_char [simp]: "input (terminal_write_char term c) = input term"
  by (simp add: terminal_write_char_def Let_def)

lemma cursor_terminal_write_char [simp]: "cursor (terminal_write_char term c) = cursor term"
  by (simp add: terminal_write_char_def Let_def)

lemma input_terminal_putc [simp]: "input (terminal_putc c term) = input term"
  by (simp add: terminal_putc_def Let_def)

lemma input_terminal_clear [simp]: "input (terminal_clear term) = input term"
  by (simp add: terminal_clear_def Let_def)

lemma scan_newline_None:
  "scan_newline ib i = None \<longleftrightarrow> (\<forall>j. i \<le> j \<and> j < count ib \<longrightarrow> buf ib j \<noteq> CHR 0x0A)"
proof (induction ib i rule: scan_newline.induct)
  case (1 ib i)
  show ?case
  proof (cases "i < count ib")
    case False
    then show ?thesis by (subst scan_newline.simps) auto
  next
    case True
    show ?thesis
    proof (cases "buf ib i = CHR 0x0A")
      case True
      with \<open>i < count ib\<close> show ?thesis by (subst scan_newline.simps) auto
    next
      case False
      have "(\<forall>j. i \<le> j \<and> j < count ib \<longrightarrow> buf ib j \<noteq> CHR 0x0A)
            \<longleftrightarrow> (\<forall>j. i + 1 \<le> j \<and> j < count ib \<longrightarrow> buf ib j \<noteq> CHR 0x0A)"
      proof (intro iffI allI impI)
        fix j assume a: "\<forall>j. i + 1 \<le> j \<and> j < count ib \<longrightarrow> buf ib j \<noteq> CHR 0x0A"
          and b: "i \<le> j \<and> j < count ib"
        show "buf ib j \<noteq> CHR 0x0A"
        proof (cases "j = i")
          case True with False show ?thesis by simp
        next
          case False with a b show ?thesis by auto
        qed
      qed auto
      with 1 True False show ?thesis by (subst scan_newline.simps) simp
    qed
  qed
qed

lemma scan_newline_Some:
  "scan_newline ib i = Some r \<longleftrightarrow>
     (i < r \<and> r \<le> count ib \<and> buf ib (r - 1) = CHR 0x0A
      \<and> (\<forall>j. i \<le> j \<and> j < r - 1 \<longrightarrow> buf ib j \<noteq> CHR 0x0A))"
proof (induction ib i rule: scan_newline.induct)
  case (1 ib i)
  show ?case
  proof (cases "i < count ib")
    case False
    then show ?thesis by (subst scan_newline.simps) auto
  next
    case True
    show ?thesis
    proof (cases "buf ib i = CHR 0x0A")
      case nl: True
      have "(i < r \<and> r \<le> count ib \<and> buf ib (r - 1) = CHR 0x0A
            \<and> (\<forall>j. i \<le> j \<and> j < r - 1 \<longrightarrow> buf ib j \<noteq> CHR 0x0A)) \<longleftrightarrow> r = i + 1"
      proof
        assume a: "i < r \<and> r \<le> count ib \<and> buf ib (r - 1) = CHR 0x0A
            \<and> (\<forall>j. i \<le> j \<and> j < r - 1 \<longrightarrow> buf ib j \<noteq> CHR 0x0A)"
        show "r = i + 1"
        proof (rule ccontr)
          assume "r \<noteq> i + 1"
          with a have "i \<le> i \<and> i < r - 1" by auto
          with a have "buf ib i \<noteq> CHR 0x0A" by blast
          with nl show False by simp
        qed
      next
        assume "r = i + 1" with True nl show "i < r \<and> r \<le> count ib \<and> buf ib (r - 1) = CHR 0x0A
            \<and> (\<forall>j. i \<le> j \<and> j < r - 1 \<longrightarrow> buf ib j \<noteq> CHR 0x0A)" by auto
      qed
      with True nl show ?thesis by (subst scan_newline.simps) auto
    next
      case False
      have "(i < r \<and> r \<le> count ib \<and> buf ib (r - 1) = CHR 0x0A
            \<and> (\<forall>j. i \<le> j \<and> j < r - 1 \<longrightarrow> buf ib j \<noteq> CHR 0x0A))
          \<longleftrightarrow> (i + 1 < r \<and> r \<le> count ib \<and> buf ib (r - 1) = CHR 0x0A
            \<and> (\<forall>j. i + 1 \<le> j \<and> j < r - 1 \<longrightarrow> buf ib j \<noteq> CHR 0x0A))" (is "?L \<longleftrightarrow> ?R")
      proof
        assume l: ?L
        have "r \<noteq> i + 1" using l False by auto
        with l show ?R by auto
      next
        assume r: ?R
        have "buf ib j \<noteq> CHR 0x0A" if "i \<le> j \<and> j < r - 1" for j
        proof (cases "j = i")
          case True with False show ?thesis by simp
        next
          case False with r that show ?thesis by auto
        qed
        with r show ?L by auto
      qed
      with 1 True False show ?thesis by (subst scan_newline.simps) simp
    qed
  qed
qed

lemma copy_loop_eq:
  "copy_loop ib nbytes i dest = (max i nbytes, dest @ map (buf ib) [i..nbytes - 1])"
proof (induction ib nbytes i dest rule: copy_loop.induct)
  case (1 ib nbytes i dest)
  show ?case
  proof (cases "i < nbytes")
    case True
    have "[i..nbytes - 1] = i # [i + 1..nbytes - 1]"
      using True by (simp add: upto_rec1)
    with 1 True show ?thesis by (subst copy_loop.simps) simp
  next
    case False
    then show ?thesis by (subst copy_loop.simps) simp
  qed
qed

lemma memmove_nothing: "memmove m d s 0 = m"
  by (rule ext) (auto simp add: memmove_def)

lemma upto_0_3: "[0..3] = [0, 1, 2, 3::int]" "[0..0] = [0::int]"
  by (simp_all add: upto_rec1)

subsection \<open>The cursor\<close>

text \<open>
  C6 (as amended). For every terminal state in which \<^verbatim>\<open>screen_x\<close> is in
  \<open>[0, NUM_COLS)\<close> and \<^verbatim>\<open>logical_x\<close> is in \<open>[0, INT32_MAX]\<close>, and every byte,
  \<^verbatim>\<open>terminal_putc\<close> and \<^verbatim>\<open>terminal_clear\<close> leave \<^verbatim>\<open>screen_x\<close> in
  \<open>[0, NUM_COLS)\<close> and \<^verbatim>\<open>logical_x\<close> non-negative, provided that
  \<^verbatim>\<open>logical_x\<close> is below \<open>INT32_MAX\<close> when the byte is neither a line break nor
  a backspace.
\<close>

theorem cursor_invariant:
  assumes "cursor_ok term" and "logical_x (cursor term) \<le> INT32_MAX"
    and "c \<in> {CHR 0x0A, CHR 0x0D, CHR 0x08} \<or> logical_x (cursor term) < INT32_MAX"
  shows "cursor_ok (terminal_putc c term) \<and> cursor_ok (terminal_clear term)"
proof -
  have clear: "cursor_ok (terminal_clear term)"
    by (simp add: cursor_ok_def terminal_clear_def Let_def NUM_COLS_def)
  have putc: "cursor_ok (terminal_putc c term)"
    using assms
    by (auto simp: cursor_ok_def terminal_putc_def Let_def NUM_COLS_def INT32_MAX_def s32_id)
  from clear putc show ?thesis by simp
qed

theorem cursor_invariant_witness:
  "cursor_ok (term_with ''ab'') \<and> logical_x (cursor (term_with ''ab'')) \<le> INT32_MAX
   \<and> (CHR ''x'' \<in> {CHR 0x0A, CHR 0x0D, CHR 0x08}
        \<or> logical_x (cursor (term_with ''ab'')) < INT32_MAX)
   \<and> cursor_ok (terminal_putc CHR ''x'' (term_with ''ab''))
   \<and> cursor_ok (terminal_clear (term_with ''ab''))"
proof -
  have h1: "cursor_ok (term_with ''ab'')"
    by (simp add: cursor_ok_def term_with_def NUM_COLS_def)
  have h2: "logical_x (cursor (term_with ''ab'')) \<le> INT32_MAX"
    by (simp add: term_with_def INT32_MAX_def)
  have h3: "CHR ''x'' \<in> {CHR 0x0A, CHR 0x0D, CHR 0x08}
        \<or> logical_x (cursor (term_with ''ab'')) < INT32_MAX"
    by (simp add: term_with_def INT32_MAX_def)
  from h1 h2 h3 cursor_invariant [OF h1 h2 h3] show ?thesis by blast
qed

text \<open>
  C6 as stated fails at the largest \<^verbatim>\<open>int32_t\<close>: one more plain character makes
  \<^verbatim>\<open>logical_x\<close> wrap around to the smallest.
\<close>

theorem cursor_invariant_counterexample:
  "cursor_ok term_long_line \<and> \<not> cursor_ok (terminal_putc CHR ''a'' term_long_line)"
  by (simp add: cursor_ok_def term_long_line_def term_with_def terminal_putc_def Let_def
      NUM_COLS_def NUM_ROWS_def s32_def)

subsection \<open>Scrolling\<close>

lemma putc_plain_cursor:
  assumes "plain c" and "cursor t = \<lparr>logical_x = lx, screen_x = x, screen_y = y\<rparr>"
    and "0 \<le> x" "x < 80" "0 \<le> y" "80 * y + x < 1999" "0 \<le> lx" "lx < 2147483647"
  shows "cursor (terminal_putc c t) =
           \<lparr>logical_x = lx + 1, screen_x = (if x = 79 then 0 else x + 1),
            screen_y = (if x = 79 then y + 1 else y)\<rparr>"
  using assms
  by (auto simp: plain_def terminal_putc_def Let_def NUM_COLS_def NUM_ROWS_def s32_id)

lemma putc_plain_video:
  assumes "plain c" and "cursor t = \<lparr>logical_x = lx, screen_x = x, screen_y = y\<rparr>"
    and "0 \<le> x" "x < 80" "0 \<le> y" "80 * y + x < 1999" "0 \<le> lx" "lx < 2147483647"
  shows "video_mem (terminal_putc c t) =
           (video_mem t)((80 * y + x) * 2 := c, (80 * y + x) * 2 + 1 := ATTRIB)"
  using assms
  by (auto simp: plain_def terminal_putc_def terminal_write_char_def Let_def NUM_COLS_def
      NUM_ROWS_def s32_id mult.commute)

lemma putc_plain_scroll_cursor:
  assumes "plain c" and "cursor t = \<lparr>logical_x = lx, screen_x = 79, screen_y = 24\<rparr>"
    and "0 \<le> lx" "lx < 2147483647"
  shows "cursor (terminal_putc c t) = \<lparr>logical_x = lx + 1, screen_x = 0, screen_y = 24\<rparr>"
  using assms
  by (auto simp: plain_def terminal_putc_def Let_def NUM_COLS_def NUM_ROWS_def s32_id)

lemma putc_plain_scroll_video:
  assumes "plain c" and "cursor t = \<lparr>logical_x = lx, screen_x = 79, screen_y = 24\<rparr>"
    and "0 \<le> lx" "lx < 2147483647"
  shows "video_mem (terminal_putc c t) =
           memset (memmove ((video_mem t)(3998 := c, 3999 := ATTRIB)) 0 160 3840) 3840 (CHR 0x00) 160"
  using assms
  by (auto simp: plain_def terminal_putc_def terminal_write_char_def terminal_scroll_down_def
      Let_def NUM_COLS_def NUM_ROWS_def s32_id)

lemma next_cell_aux:
  fixes d m :: int
  assumes "0 \<le> m" "m < 80"
  shows "(80 * d + m + 1) mod 80 = (if m = 79 then 0 else m + 1)"
    and "(80 * d + m + 1) div 80 = (if m = 79 then d + 1 else d)"
proof -
  show "(80 * d + m + 1) mod 80 = (if m = 79 then 0 else m + 1)"
  proof (cases "m = 79")
    case True
    have "80 * d + m + 1 = 80 * (d + 1) + 0" using True by simp
    then have "(80 * d + m + 1) mod 80 = 0" by (rule int_mod_pos_eq) simp_all
    with True show ?thesis by simp
  next
    case False
    have "80 * d + m + 1 = 80 * d + (m + 1)" by simp
    then have "(80 * d + m + 1) mod 80 = m + 1"
      by (rule int_mod_pos_eq) (use assms False in simp_all)
    with False show ?thesis by simp
  qed
  show "(80 * d + m + 1) div 80 = (if m = 79 then d + 1 else d)"
  proof (cases "m = 79")
    case True
    have "80 * d + m + 1 = 80 * (d + 1) + 0" using True by simp
    then have "(80 * d + m + 1) div 80 = d + 1" by (rule int_div_pos_eq) simp_all
    with True show ?thesis by simp
  next
    case False
    have "80 * d + m + 1 = 80 * d + (m + 1)" by simp
    then have "(80 * d + m + 1) div 80 = d"
      by (rule int_div_pos_eq) (use assms False in simp_all)
    with False show ?thesis by simp
  qed
qed

lemma next_cell:
  fixes k :: int
  shows "(k + 1) mod 80 = (if k mod 80 = 79 then 0 else k mod 80 + 1)"
    and "(k + 1) div 80 = (if k mod 80 = 79 then k div 80 + 1 else k div 80)"
proof -
  have e: "80 * (k div 80) + k mod 80 = k" by simp
  have r: "0 \<le> k mod 80" "k mod 80 < 80" by simp_all
  show "(k + 1) mod 80 = (if k mod 80 = 79 then 0 else k mod 80 + 1)"
    using next_cell_aux(1) [OF r, of "k div 80"] unfolding e .
  show "(k + 1) div 80 = (if k mod 80 = 79 then k div 80 + 1 else k div 80)"
    using next_cell_aux(2) [OF r, of "k div 80"] unfolding e .
qed

lemma divmod80:
  fixes k :: int
  assumes "0 \<le> k"
  shows "0 \<le> k mod 80" "k mod 80 < 80" "0 \<le> k div 80" "80 * (k div 80) + k mod 80 = k"
  using assms by (simp_all add: pos_imp_zdiv_nonneg_iff)

lemma cursor_terminal_clear:
  "cursor (terminal_clear t) = \<lparr>logical_x = 0, screen_x = 0, screen_y = 0\<rparr>"
  by (simp add: terminal_clear_def Let_def)

text \<open>
  After fewer plain characters than the screen has cells, written to a cleared
  terminal: the cursor is behind the last of them and each is in its cell.
\<close>

lemma fill_screen:
  assumes "\<forall>c \<in> set xs. plain c" and "length xs \<le> 1999"
  shows "cursor (fold terminal_putc xs (terminal_clear t)) =
           \<lparr>logical_x = int (length xs), screen_x = int (length xs) mod 80,
            screen_y = int (length xs) div 80\<rparr>
       \<and> (\<forall>j < length xs.
             video_mem (fold terminal_putc xs (terminal_clear t)) (int j * 2) = xs ! j
           \<and> video_mem (fold terminal_putc xs (terminal_clear t)) (int j * 2 + 1) = ATTRIB)"
  using assms
proof (induction xs rule: rev_induct)
  case Nil
  show ?case by (simp add: cursor_terminal_clear)
next
  case (snoc c xs)
  define u where "u = fold terminal_putc xs (terminal_clear t)"
  define k where "k = int (length xs)"
  define x where "x = k mod 80"
  define y where "y = k div 80"
  have pl: "plain c" and plx: "\<forall>c \<in> set xs. plain c" using snoc.prems(1) by auto
  have len: "length xs \<le> 1998" using snoc.prems(2) by simp
  then have len': "length xs \<le> 1999" by simp
  have k: "0 \<le> k" "k \<le> 1998" using len by (auto simp: k_def)
  have xy: "0 \<le> x" "x < 80" "0 \<le> y" "80 * y + x = k"
    unfolding x_def y_def using divmod80 [OF k(1)] by blast+
  have ih: "cursor u = \<lparr>logical_x = k, screen_x = x, screen_y = y\<rparr>"
    and ihv: "\<forall>j < length xs. video_mem u (int j * 2) = xs ! j
                \<and> video_mem u (int j * 2 + 1) = ATTRIB"
    using snoc.IH [OF plx len'] by (auto simp: u_def k_def x_def y_def)
  have b: "80 * y + x < 1999" "0 \<le> k" "k < 2147483647" using xy k by auto
  note cur = putc_plain_cursor [OF pl ih xy(1) xy(2) xy(3) b]
  note vid = putc_plain_video [OF pl ih xy(1) xy(2) xy(3) b]
  have f: "fold terminal_putc (xs @ [c]) (terminal_clear t) = terminal_putc c u"
    by (simp add: u_def)
  have c1: "(if x = 79 then 0 else x + 1) = (k + 1) mod 80"
    unfolding x_def by (rule next_cell(1) [symmetric])
  have c2: "(if x = 79 then y + 1 else y) = (k + 1) div 80"
    unfolding x_def y_def by (rule next_cell(2) [symmetric])
  have cursor': "cursor (terminal_putc c u) =
      \<lparr>logical_x = int (length (xs @ [c])), screen_x = int (length (xs @ [c])) mod 80,
       screen_y = int (length (xs @ [c])) div 80\<rparr>"
  proof -
    have l: "int (length (xs @ [c])) = k + 1" by (simp add: k_def)
    show ?thesis unfolding l using cur c1 c2 by simp
  qed
  have cells: "video_mem (terminal_putc c u) (int j * 2) = (xs @ [c]) ! j
             \<and> video_mem (terminal_putc c u) (int j * 2 + 1) = ATTRIB"
    if "j < length (xs @ [c])" for j
  proof (cases "j = length xs")
    case True
    then show ?thesis using xy(4) by (simp add: vid k_def)
  next
    case False
    with that have j: "j < length xs" by simp
    then have "int j \<noteq> k" by (simp add: k_def)
    then have ne: "int j * 2 \<noteq> k * 2" "int j * 2 \<noteq> k * 2 + 1" "int j * 2 + 1 \<noteq> k * 2"
      "int j * 2 + 1 \<noteq> k * 2 + 1" by presburger+
    show ?thesis using ihv j ne by (simp add: vid xy(4) nth_append)
  qed
  show ?case unfolding f using cursor' cells by blast
qed

lemma screen_row_nth:
  assumes "\<forall>j < 80. video_mem t ((y * 80 + int j) * 2) = f j
             \<and> video_mem t ((y * 80 + int j) * 2 + 1) = ATTRIB"
  shows "screen_row t y = map (\<lambda>j. (f j, ATTRIB)) [0..<80]"
proof (rule nth_equalityI)
  show "length (screen_row t y) = length (map (\<lambda>j. (f j, ATTRIB)) [0..<80])"
    by (simp add: screen_row_def NUM_COLS_def)
next
  fix i assume "i < length (screen_row t y)"
  then have i: "i < 80" by (simp add: screen_row_def NUM_COLS_def)
  then have u: "[0..79] ! i = int i" by (simp add: nth_upto)
  have n: "[0..<80] ! i = i" using i by simp
  show "screen_row t y ! i = map (\<lambda>j. (f j, ATTRIB)) [0..<80] ! i"
    using i assms u by (simp add: screen_row_def NUM_COLS_def)
qed

text \<open>
  The same from any cursor position \<open>p\<close> (counted in cells from the top left), as
  long as the characters fit on the screen: the cursor advances by their number and no
  cell outside the ones written changes.
\<close>

lemma fill_from:
  assumes "\<forall>c \<in> set xs. plain c"
    and "cursor t = \<lparr>logical_x = lx, screen_x = p mod 80, screen_y = p div 80\<rparr>"
    and "0 \<le> p" and "p + int (length xs) \<le> 1999"
    and "0 \<le> lx" and "lx + int (length xs) < 2147483647"
  shows "cursor (fold terminal_putc xs t) =
           \<lparr>logical_x = lx + int (length xs), screen_x = (p + int (length xs)) mod 80,
            screen_y = (p + int (length xs)) div 80\<rparr>
       \<and> (\<forall>a. a < p * 2 \<or> (p + int (length xs)) * 2 \<le> a \<longrightarrow>
              video_mem (fold terminal_putc xs t) a = video_mem t a)"
  using assms(1,4,6)
proof (induction xs rule: rev_induct)
  case Nil
  show ?case using assms(2) by simp
next
  case (snoc c xs)
  define u where "u = fold terminal_putc xs t"
  define q where "q = p + int (length xs)"
  define x where "x = q mod 80"
  define y where "y = q div 80"
  have pl: "plain c" and plx: "\<forall>c \<in> set xs. plain c" using snoc.prems(1) by auto
  have b1: "p + int (length xs) \<le> 1999" and b2: "lx + int (length xs) < 2147483647"
    using snoc.prems(2,3) by simp_all
  have q: "0 \<le> q" "q \<le> 1998" using snoc.prems(2) assms(3) by (auto simp: q_def)
  have xy: "0 \<le> x" "x < 80" "0 \<le> y" "80 * y + x = q"
    unfolding x_def y_def using divmod80 [OF q(1)] by blast+
  have ih: "cursor u = \<lparr>logical_x = lx + int (length xs), screen_x = x, screen_y = y\<rparr>"
    and ihv: "\<forall>a. a < p * 2 \<or> q * 2 \<le> a \<longrightarrow> video_mem u a = video_mem t a"
    using snoc.IH [OF plx b1 b2] by (auto simp: u_def q_def x_def y_def)
  have b: "80 * y + x < 1999" "0 \<le> lx + int (length xs)" "lx + int (length xs) < 2147483647"
    using xy q assms(5) b2 by auto
  note cur = putc_plain_cursor [OF pl ih xy(1) xy(2) xy(3) b]
  note vid = putc_plain_video [OF pl ih xy(1) xy(2) xy(3) b]
  have f: "fold terminal_putc (xs @ [c]) t = terminal_putc c u"
    by (simp add: u_def)
  have c1: "(if x = 79 then 0 else x + 1) = (q + 1) mod 80"
    unfolding x_def by (rule next_cell(1) [symmetric])
  have c2: "(if x = 79 then y + 1 else y) = (q + 1) div 80"
    unfolding x_def y_def by (rule next_cell(2) [symmetric])
  have l: "p + int (length (xs @ [c])) = q + 1" "lx + int (length (xs @ [c])) = lx + int (length xs) + 1"
    by (simp_all add: q_def)
  have cursor': "cursor (terminal_putc c u) =
      \<lparr>logical_x = lx + int (length (xs @ [c])), screen_x = (p + int (length (xs @ [c]))) mod 80,
       screen_y = (p + int (length (xs @ [c]))) div 80\<rparr>"
    unfolding l using cur c1 c2 by simp
  have same: "video_mem (terminal_putc c u) a = video_mem t a"
    if "a < p * 2 \<or> (p + int (length (xs @ [c]))) * 2 \<le> a" for a
  proof -
    from that have "a < p * 2 \<or> (q + 1) * 2 \<le> a" unfolding l .
    then have ne: "a \<noteq> q * 2" "a \<noteq> q * 2 + 1" and old: "a < p * 2 \<or> q * 2 \<le> a"
      using q_def by auto
    have "video_mem u a = video_mem t a" using ihv old by blast
    then show ?thesis using ne by (simp add: vid xy(4))
  qed
  show ?case unfolding f using cursor' same by blast
qed

text \<open>A carriage return above the last row moves the cursor to the start of the next row.\<close>

lemma putc_cr:
  assumes "cursor t = \<lparr>logical_x = lx, screen_x = x, screen_y = y\<rparr>" and "0 \<le> y" and "y < 24"
  shows "cursor (terminal_putc (CHR 0x0D) t) = \<lparr>logical_x = 0, screen_x = 0, screen_y = y + 1\<rparr>"
    and "video_mem (terminal_putc (CHR 0x0D) t) = video_mem t"
  using assms by (auto simp: terminal_putc_def Let_def NUM_ROWS_def s32_id)


text \<open>
  The scroll that follows a character written in the bottom right cell: a cell of the
  rows above takes the content of the cell one row below.
\<close>

lemma scroll_cell:
  assumes "0 \<le> a" and "a < 3838"
  shows "memset (memmove (vm(3998 := c, 3999 := ATTRIB)) 0 160 3840) 3840 (CHR 0x00) 160 a
           = vm (a + 160)"
  using assms by (simp add: memset_def memmove_def add.commute)

text \<open>
  C7 (as amended). Starting from a cleared terminal, writing \<open>NUM_ROWS * NUM_COLS + 1\<close>
  plain characters (none a newline, a carriage return or a backspace) leaves in the
  first screen row characters 80..159 of the sequence (each with the attribute byte),
  which is what the second row held before the scroll (in the terminal before the
  \<^verbatim>\<open>terminal_putc\<close> of character 2000, the one that scrolls), and leaves the cursor
  on the last screen row.
\<close>

theorem scroll_after_full_screen:
  assumes "int (length chars) = NUM_ROWS * NUM_COLS + 1" and "\<forall>c \<in> set chars. plain c"
  shows "screen_row (fst (terminal_write chars (terminal_clear term))) 0
           = map (\<lambda>c. (c, ATTRIB)) (take 80 (drop 80 chars))
       \<and> screen_row (fst (terminal_write chars (terminal_clear term))) 0
           = screen_row (fst (terminal_write (take 1999 chars) (terminal_clear term))) 1
       \<and> screen_y (cursor (fst (terminal_write chars (terminal_clear term)))) = NUM_ROWS - 1"
proof -
  define xs where "xs = take 1999 chars"
  define a where "a = chars ! 1999"
  define b where "b = chars ! 2000"
  define t1 where "t1 = fold terminal_putc xs (terminal_clear term)"
  define t2 where "t2 = terminal_putc a t1"
  define t3 where "t3 = terminal_putc b t2"
  have len: "length chars = 2001" using assms(1) by (simp add: NUM_ROWS_def NUM_COLS_def)
  have split: "chars = xs @ [a, b]"
  proof (rule nth_equalityI)
    show "length chars = length (xs @ [a, b])" using len by (simp add: xs_def)
  next
    fix i assume "i < length chars"
    then have "i < 1999 \<or> i = 1999 \<or> i = 2000" using len by auto
    then show "chars ! i = (xs @ [a, b]) ! i"
      using len by (auto simp: xs_def a_def b_def nth_append)
  qed
  have lx: "length xs = 1999" using len by (simp add: xs_def)
  have pxs: "\<forall>c \<in> set xs. plain c" and pa: "plain a" and pb: "plain b"
    using assms(2) by (subst (asm) split, simp)+
  have final: "fst (terminal_write chars (terminal_clear term)) = t3"
    by (subst split) (simp add: terminal_write_def t3_def t2_def t1_def)
  have before: "fst (terminal_write (take 1999 chars) (terminal_clear term)) = t1"
    by (simp add: terminal_write_def t1_def xs_def)
  note fill = fill_screen [OF pxs, of "term", unfolded lx, folded t1_def]
  have c1: "cursor t1 = \<lparr>logical_x = 1999, screen_x = 79, screen_y = 24\<rparr>"
    using fill by simp
  have v1: "video_mem t1 (int j * 2) = xs ! j \<and> video_mem t1 (int j * 2 + 1) = ATTRIB"
    if "j < 1999" for j
    using fill that by simp
  have c2: "cursor t2 = \<lparr>logical_x = 2000, screen_x = 0, screen_y = 24\<rparr>"
    unfolding t2_def using putc_plain_scroll_cursor [OF pa c1] by simp
  have v2: "video_mem t2 =
      memset (memmove ((video_mem t1)(3998 := a, 3999 := ATTRIB)) 0 160 3840) 3840 (CHR 0x00) 160"
    unfolding t2_def using putc_plain_scroll_video [OF pa c1] by simp
  have c3: "cursor t3 = \<lparr>logical_x = 2001, screen_x = 1, screen_y = 24\<rparr>"
    unfolding t3_def using putc_plain_cursor [OF pb c2] by simp
  have v3: "video_mem t3 = (video_mem t2)(3840 := b, 3841 := ATTRIB)"
    unfolding t3_def using putc_plain_video [OF pb c2] by simp
  have row1: "video_mem t1 ((1 * 80 + int j) * 2) = chars ! (80 + j)
              \<and> video_mem t1 ((1 * 80 + int j) * 2 + 1) = ATTRIB" if "j < 80" for j
  proof -
    have "(1 * 80 + int j) * 2 = int (80 + j) * 2" by simp
    moreover have "80 + j < 1999" using that by simp
    moreover have "xs ! (80 + j) = chars ! (80 + j)" using that by (simp add: xs_def)
    ultimately show ?thesis using v1 [of "80 + j"] by simp
  qed
  have row0: "video_mem t3 ((0 * 80 + int j) * 2) = chars ! (80 + j)
              \<and> video_mem t3 ((0 * 80 + int j) * 2 + 1) = ATTRIB" if "j < 80" for j
    using row1 [OF that] that by (simp add: v3 v2 memset_def memmove_def algebra_simps)
  have r0: "screen_row t3 0 = map (\<lambda>j. (chars ! (80 + j), ATTRIB)) [0..<80]"
    by (rule screen_row_nth) (use row0 in blast)
  have r1: "screen_row t1 1 = map (\<lambda>j. (chars ! (80 + j), ATTRIB)) [0..<80]"
    by (rule screen_row_nth) (use row1 in blast)
  have td: "map (\<lambda>c. (c, ATTRIB)) (take 80 (drop 80 chars))
            = map (\<lambda>j. (chars ! (80 + j), ATTRIB)) [0..<80]"
    by (rule nth_equalityI) (use len in simp_all)
  show ?thesis unfolding final before
    using r0 r1 td c3 by (simp add: NUM_ROWS_def)
qed

theorem scroll_after_full_screen_witness:
  "int (length screenful_and_one) = NUM_ROWS * NUM_COLS + 1
   \<and> set screenful_and_one \<subseteq> {c. plain c}
   \<and> screen_row (fst (terminal_write screenful_and_one (terminal_clear (term_with [])))) 0
       = replicate 80 (CHR ''b'', ATTRIB)
   \<and> screen_y (cursor (fst (terminal_write screenful_and_one (terminal_clear (term_with [])))))
       = 24"
proof -
  have h1: "int (length screenful_and_one) = NUM_ROWS * NUM_COLS + 1"
    by (simp add: screenful_and_one_def NUM_ROWS_def NUM_COLS_def)
  have h2: "\<forall>c \<in> set screenful_and_one. plain c"
    by (auto simp: screenful_and_one_def plain_def)
  have r: "map (\<lambda>c. (c, ATTRIB)) (take 80 (drop 80 screenful_and_one))
           = replicate 80 (CHR ''b'', ATTRIB)"
    by (simp add: screenful_and_one_def)
  have h2': "set screenful_and_one \<subseteq> {c. plain c}" using h2 by blast
  from scroll_after_full_screen [OF h1 h2, of "term_with []"] h1 h2' r
  show ?thesis by (simp add: NUM_ROWS_def)
qed

text \<open>
  C7 as stated, for characters that are only required not to be newlines or backspaces,
  fails when one of them is a carriage return, which \<^verbatim>\<open>terminal_putc\<close> treats as a
  line break: after three full rows, a carriage return and 1760 more characters the
  screen has scrolled twice, and the first row holds characters 160..239 of the
  sequence, not 80..159.
\<close>

theorem scroll_after_full_screen_counterexample:
  "int (length screenful_with_cr) = NUM_ROWS * NUM_COLS + 1
   \<and> CHR 0x0A \<notin> set screenful_with_cr \<and> CHR 0x08 \<notin> set screenful_with_cr
   \<and> screen_row (fst (terminal_write screenful_with_cr (terminal_clear (term_with [])))) 0
       = replicate 80 (CHR ''c'', ATTRIB)
   \<and> screen_row (fst (terminal_write screenful_with_cr (terminal_clear (term_with [])))) 0
       \<noteq> map (\<lambda>c. (c, ATTRIB)) (take 80 (drop 80 screenful_with_cr))"
proof -
  define A where "A = replicate 80 CHR ''a'' @ replicate 80 CHR ''b'' @ replicate 80 CHR ''c''"
  define D1 where "D1 = replicate 1679 CHR ''d''"
  define D2 where "D2 = replicate 79 CHR ''d''"
  define T0 where "T0 = terminal_clear (term_with [])"
  define T1 where "T1 = fold terminal_putc A T0"
  define T2 where "T2 = terminal_putc (CHR 0x0D) T1"
  define T3 where "T3 = fold terminal_putc D1 T2"
  define T4 where "T4 = terminal_putc CHR ''d'' T3"
  define T5 where "T5 = fold terminal_putc D2 T4"
  define T6 where "T6 = terminal_putc CHR ''d'' T5"
  have d: "replicate 1760 CHR ''d'' = D1 @ [CHR ''d''] @ D2 @ [CHR ''d'']"
  proof -
    have "D1 @ [CHR ''d''] @ D2 @ [CHR ''d'']
          = replicate 1679 CHR ''d'' @ replicate 1 CHR ''d'' @ replicate 79 CHR ''d''
            @ replicate 1 CHR ''d''"
      by (simp add: D1_def D2_def)
    also have "\<dots> = replicate (1679 + (1 + (79 + 1))) CHR ''d''"
      by (simp only: replicate_add)
    finally show ?thesis by simp
  qed
  have split: "screenful_with_cr = A @ [CHR 0x0D] @ D1 @ [CHR ''d''] @ D2 @ [CHR ''d'']"
    unfolding screenful_with_cr_def d by (simp add: A_def)
  have final: "fst (terminal_write screenful_with_cr (terminal_clear (term_with []))) = T6"
    unfolding split
    by (simp add: terminal_write_def T6_def T5_def T4_def T3_def T2_def T1_def T0_def)
  have pA: "\<forall>c \<in> set A. plain c" by (auto simp: A_def plain_def)
  have pD1: "\<forall>c \<in> set D1. plain c" by (auto simp: D1_def plain_def)
  have pD2: "\<forall>c \<in> set D2. plain c" by (auto simp: D2_def plain_def)
  have pd: "plain CHR ''d''" by (simp add: plain_def)
  have lA: "length A = 240" by (simp add: A_def)
  have lD1: "length D1 = 1679" by (simp add: D1_def)
  have lD2: "length D2 = 79" by (simp add: D2_def)
  note fillA = fill_screen [OF pA, of "term_with []", unfolded lA, folded T0_def]
  have c1: "cursor T1 = \<lparr>logical_x = 240, screen_x = 0, screen_y = 3\<rparr>"
    unfolding T1_def using fillA by simp
  have v1: "video_mem T1 (int j * 2) = A ! j \<and> video_mem T1 (int j * 2 + 1) = ATTRIB"
    if "j < 240" for j
    unfolding T1_def using fillA that by simp
  have c2: "cursor T2 = \<lparr>logical_x = 0, screen_x = 0, screen_y = 4\<rparr>"
    unfolding T2_def using putc_cr(1) [OF c1] by simp
  have v2: "video_mem T2 = video_mem T1"
    unfolding T2_def using putc_cr(2) [OF c1] by simp
  have c2': "cursor T2 = \<lparr>logical_x = 0, screen_x = 320 mod 80, screen_y = 320 div 80\<rparr>"
    using c2 by simp
  note fill3 = fill_from [OF pD1 c2', unfolded lD1]
  have c3: "cursor T3 = \<lparr>logical_x = 1679, screen_x = 79, screen_y = 24\<rparr>"
    unfolding T3_def using fill3 by simp
  have v3: "video_mem T3 a = video_mem T2 a" if "a < 640" for a
    unfolding T3_def using fill3 that by simp
  have c4: "cursor T4 = \<lparr>logical_x = 1680, screen_x = 0, screen_y = 24\<rparr>"
    unfolding T4_def using putc_plain_scroll_cursor [OF pd c3] by simp
  have v4: "video_mem T4 =
      memset (memmove ((video_mem T3)(3998 := CHR ''d'', 3999 := ATTRIB)) 0 160 3840)
        3840 (CHR 0x00) 160"
    unfolding T4_def using putc_plain_scroll_video [OF pd c3] by simp
  have c4': "cursor T4 = \<lparr>logical_x = 1680, screen_x = 1920 mod 80, screen_y = 1920 div 80\<rparr>"
    using c4 by simp
  note fill5 = fill_from [OF pD2 c4', unfolded lD2]
  have c5: "cursor T5 = \<lparr>logical_x = 1759, screen_x = 79, screen_y = 24\<rparr>"
    unfolding T5_def using fill5 by simp
  have v5: "video_mem T5 a = video_mem T4 a" if "a < 3840" for a
    unfolding T5_def using fill5 that by simp
  have v6: "video_mem T6 =
      memset (memmove ((video_mem T5)(3998 := CHR ''d'', 3999 := ATTRIB)) 0 160 3840)
        3840 (CHR 0x00) 160"
    unfolding T6_def using putc_plain_scroll_video [OF pd c5] by simp
  have cell: "video_mem T6 a = video_mem T1 (a + 320)" if "0 \<le> a" and "a < 160" for a
  proof -
    have "video_mem T6 a = video_mem T5 (a + 160)"
      unfolding v6 using that by (simp add: scroll_cell)
    also have "\<dots> = video_mem T4 (a + 160)" using that by (simp add: v5)
    also have "\<dots> = video_mem T3 (a + 160 + 160)"
      unfolding v4 using that by (simp add: scroll_cell)
    also have "\<dots> = video_mem T2 (a + 320)" using that by (simp add: v3 add.commute)
    finally show ?thesis by (simp add: v2)
  qed
  have row0: "video_mem T6 ((0 * 80 + int j) * 2) = CHR ''c''
              \<and> video_mem T6 ((0 * 80 + int j) * 2 + 1) = ATTRIB" if "j < 80" for j
  proof -
    have e: "int j * 2 + 320 = int (160 + j) * 2" "int j * 2 + 1 + 320 = int (160 + j) * 2 + 1"
      by simp_all
    have "A ! (160 + j) = CHR ''c''" using that by (simp add: A_def nth_append)
    then show ?thesis
      using that v1 [of "160 + j"] cell [of "int j * 2"] cell [of "int j * 2 + 1"]
      by (simp add: e)
  qed
  have r0: "screen_row T6 0 = map (\<lambda>j. (CHR ''c'', ATTRIB)) [0..<80]"
    by (rule screen_row_nth) (use row0 in blast)
  have rc: "map (\<lambda>j. (CHR ''c'', ATTRIB)) [0..<80] = replicate 80 (CHR ''c'', ATTRIB)"
    by (simp add: map_replicate_const)
  have rb: "map (\<lambda>c. (c, ATTRIB)) (take 80 (drop 80 screenful_with_cr))
            = replicate 80 (CHR ''b'', ATTRIB)"
    by (simp add: screenful_with_cr_def)
  have ne: "replicate 80 (CHR ''c'', ATTRIB) \<noteq> replicate 80 (CHR ''b'', ATTRIB)"
    by (simp add: replicate_eq_replicate)
  have len: "int (length screenful_with_cr) = NUM_ROWS * NUM_COLS + 1"
    by (simp add: screenful_with_cr_def NUM_ROWS_def NUM_COLS_def)
  have nolf: "CHR 0x0A \<notin> set screenful_with_cr" "CHR 0x08 \<notin> set screenful_with_cr"
    by (simp_all add: screenful_with_cr_def)
  show ?thesis unfolding final r0 rc rb using len nolf ne by simp
qed

subsection \<open>Reading\<close>

lemma handle_char_input_append:
  assumes "c \<noteq> CHR 0x08" and "count (input term) < B"
  shows "input (handle_char_input B c term) =
           \<lparr>buf = (buf (input term))(count (input term) := c), count = count (input term) + 1\<rparr>"
  using assms by (simp add: handle_char_input_def)

lemma count_handle_input:
  assumes "0 \<le> count (input term)" and "count (input term) \<le> B"
  shows "0 \<le> count (input (terminal_handle_input B inp term))
       \<and> count (input (terminal_handle_input B inp term)) \<le> B"
  using assms
  by (auto simp: terminal_handle_input_def handle_char_input_def handle_ctrl_input_def
      split: kbd_input_t.split kbd_input_ctrl_t.split)

lemma count_wakeup:
  assumes "0 \<le> count (input term)" and "count (input term) \<le> B"
  shows "0 \<le> count (input (fold (terminal_handle_input B) w term))
       \<and> count (input (fold (terminal_handle_input B) w term)) \<le> B"
  using assms
proof (induction w arbitrary: "term")
  case Nil
  then show ?case by simp
next
  case (Cons a w)
  from count_handle_input [OF Cons.prems, of a]
  show ?case using Cons.IH by simp
qed

lemma wait_until_readable_result:
  assumes "wait_until_readable B ws term n = Some (r, term', ws')"
    and "0 \<le> count (input term)" and "count (input term) \<le> B"
  shows "0 \<le> count (input term') \<and> count (input term') \<le> B \<and> r \<le> count (input term')"
  using assms
proof (induction ws arbitrary: "term")
  case Nil
  then show ?case by (auto simp: scan_newline_Some split: if_splits option.splits)
next
  case (Cons w ws)
  show ?case
  proof (cases "n > count (input term)")
    case False
    with Cons.prems show ?thesis by auto
  next
    case True
    show ?thesis
    proof (cases "scan_newline (input term) 0")
      case (Some q)
      with True Cons.prems show ?thesis by (auto simp: scan_newline_Some)
    next
      case None
      with True Cons.prems(1)
      have "wait_until_readable B ws (fold (terminal_handle_input B) w term) n
              = Some (r, term', ws')" by simp
      from Cons.IH [OF this] count_wakeup [OF Cons.prems(2,3)]
      show ?thesis by blast
    qed
  qed
qed

text \<open>Every function of terminal.c keeps the stored count between 0 and the capacity.\<close>

lemma count_terminal_read:
  assumes "terminal_read B ws term n = Some (r, dest, term', ws')"
    and "0 \<le> count (input term)" and "count (input term) \<le> B"
  shows "0 \<le> count (input term') \<and> count (input term') \<le> B"
proof -
  define m where "m = (if n > B then B else n)"
  from assms(1) obtain q u where
    w: "wait_until_readable B ws term m = Some (q, u, ws')"
    and t: "term' = input_update (count_update (\<lambda>c. c - max 0 q))
                      (input_update (buf_update (\<lambda>b. memmove b 0 (max 0 q) (max 0 q))) u)"
    by (auto simp: terminal_read_def m_def [symmetric] copy_loop_eq Let_def
        split: option.splits)
  from wait_until_readable_result [OF w assms(2,3)] show ?thesis
    by (auto simp: t)
qed

text \<open>
  C10. For every terminal state (the stored count of buffered bytes is not negative)
  and every \<^verbatim>\<open>nbytes <= 0\<close>, \<^verbatim>\<open>terminal_read\<close> returns 0 and writes nothing to
  the caller's buffer, consumes no wake-up (it never waits, whatever is to come, also
  when nothing is), and leaves the terminal state, the input buffer and its count in
  particular, as it was.
\<close>

theorem read_nothing:
  assumes "0 \<le> count (input term)" and "nbytes \<le> 0"
  shows "terminal_read TERMINAL_BUF_SIZE ws term nbytes = Some (0, [], term, ws)"
proof -
  define n where "n = (if nbytes > TERMINAL_BUF_SIZE then TERMINAL_BUF_SIZE else nbytes)"
  have n: "n \<le> 0" using assms(2) by (simp add: n_def)
  have w: "wait_until_readable TERMINAL_BUF_SIZE ws term n = Some (n, term, ws)"
    using n assms(1) by (cases ws) simp_all
  have c: "copy_loop (input term) n 0 [] = (0, [])"
    using n by (simp add: copy_loop_eq)
  show ?thesis
    unfolding terminal_read_def n_def [symmetric] Let_def w
    by (simp add: c memmove_nothing)
qed

theorem read_nothing_witness:
  "0 \<le> count (input (term_with ''ab'')) \<and> (-3 :: int) \<le> 0
   \<and> terminal_read 128 [] (term_with ''ab'') (-3) = Some (0, [], term_with ''ab'', [])"
proof -
  have h1: "0 \<le> count (input (term_with ''ab''))" by (simp add: term_with_def)
  have h2: "(-3 :: int) \<le> 0" by simp
  from h1 h2 read_nothing [OF h1 h2] show ?thesis by blast
qed

text \<open>
  When the buffer already holds the requested number of bytes (at most the capacity),
  \<^verbatim>\<open>terminal_read\<close> returns that many at once, whatever they are, and consumes no
  wake-up; as many bytes as it has delivered are then copied to the front.
\<close>

lemma read_enough_buffered:
  assumes "n = (if nbytes > B then B else nbytes)" and "0 \<le> n" and "n \<le> count (input term)"
  shows "(case terminal_read B ws term nbytes of
            None \<Rightarrow> False
          | Some (r, dest, term', ws') \<Rightarrow>
              r = n \<and> dest = map (buf (input term)) [0..n - 1]
              \<and> buf (input term') = memmove (buf (input term)) 0 n n
              \<and> count (input term') = count (input term) - n \<and> ws' = ws)"
proof -
  have w: "wait_until_readable B ws term n = Some (n, term, ws)"
    using assms(3) by (cases ws) simp_all
  show ?thesis
    unfolding terminal_read_def assms(1) [symmetric] Let_def w
    using assms(2) by (simp add: copy_loop_eq)
qed

text \<open>
  The scenario of the spec: the buffer is empty, a read of 5 is waiting, and two bytes
  and then a newline arrive, spread over the wake-ups in any way. The read returns
  these three bytes and leaves the count 0. (The capacity is at least 3; the two bytes
  are neither newlines nor backspaces.)
\<close>

lemma read_two_bytes_then_newline:
  assumes "count (input term) = 0" and "3 \<le> B"
    and "x \<noteq> CHR 0x0A" "x \<noteq> CHR 0x08" "y \<noteq> CHR 0x0A" "y \<noteq> CHR 0x08"
    and "concat ws = [KTYP_CHAR x, KTYP_CHAR y, KTYP_CHAR CHR 0x0A]"
  shows "(case terminal_read B ws term 5 of
            None \<Rightarrow> False
          | Some (r, dest, term', ws') \<Rightarrow>
              r = 3 \<and> dest = [x, y, CHR 0x0A] \<and> count (input term') = 0)"
proof -
  define n where "n = (if 5 > B then B else 5)"
  have n: "3 \<le> n" using assms(2) by (simp add: n_def)
  define ins where "ins = [KTYP_CHAR x, KTYP_CHAR y, KTYP_CHAR CHR 0x0A]"
  define t where "t p = fold (terminal_handle_input B) (take p ins) term" for p
  have t0: "t 0 = term" by (simp add: t_def)
  have t1: "t (Suc 0) = handle_char_input B x term"
    by (simp add: t_def ins_def terminal_handle_input_def)
  have t2: "t 2 = handle_char_input B y (t (Suc 0))"
    by (simp add: t_def ins_def terminal_handle_input_def numeral_2_eq_2)
  have t3: "t 3 = handle_char_input B (CHR 0x0A) (t 2)"
    by (simp add: t_def ins_def terminal_handle_input_def numeral_2_eq_2 numeral_3_eq_3)
  have i1: "input (t (Suc 0)) = \<lparr>buf = (buf (input term))(0 := x), count = 1\<rparr>"
    unfolding t1 using assms by (simp add: handle_char_input_append)
  have i2: "input (t 2) = \<lparr>buf = (buf (input term))(0 := x, 1 := y), count = 2\<rparr>"
    unfolding t2 using assms i1 by (simp add: handle_char_input_append)
  have i3: "input (t 3) = \<lparr>buf = (buf (input term))(0 := x, 1 := y, 2 := CHR 0x0A), count = 3\<rparr>"
    unfolding t3 using assms i2 by (simp add: handle_char_input_append)
  have two: "j = 0 \<or> j = 1" if "0 \<le> j \<and> j < 2" for j :: int using that by auto
  have s0: "scan_newline (input (t 0)) 0 = None"
    using assms(1) by (auto simp: scan_newline_None t0)
  have s1: "scan_newline (input (t (Suc 0))) 0 = None"
    using assms by (auto simp: scan_newline_None i1)
  have s2: "scan_newline (input (t 2)) 0 = None"
    using assms two by (auto simp: scan_newline_None i2)
  have s3: "scan_newline (input (t 3)) 0 = Some 3"
    using assms two by (auto simp: scan_newline_Some i3)
  have waiting: "count (input (t p)) < n \<and> scan_newline (input (t p)) 0 = None" if "p < 3" for p
  proof -
    from that have "p = 0 \<or> p = Suc 0 \<or> p = 2" by auto
    then show ?thesis using n s0 s1 s2 i1 i2 assms(1) by (auto simp: t0)
  qed
  have ready: "wait_until_readable B vs (t 3) n = Some (3, t 3, vs)" for vs
    using n s3 i3 by (cases vs) auto
  have aux: "\<exists>ws'. wait_until_readable B vs (t p) n = Some (3, t 3, ws')"
    if "p \<le> 3" and "concat vs = drop p ins" for vs p
    using that
  proof (induction vs arbitrary: p)
    case Nil
    then have "p = 3" by (simp add: ins_def)
    then show ?case using ready by blast
  next
    case (Cons w vs)
    show ?case
    proof (cases "p = 3")
      case True
      then show ?thesis using ready by blast
    next
      case False
      with Cons.prems have p: "p < 3" by simp
      from Cons.prems(2) have c: "w @ concat vs = drop p ins" by simp
      then have w: "w = take (length w) (drop p ins)"
        by (metis append_eq_conv_conj)
      from c have r: "concat vs = drop (p + length w) ins"
        by (metis append_eq_conv_conj drop_drop add.commute)
      have "length (w @ concat vs) = 3 - p" unfolding c by (simp add: ins_def)
      then have l: "p + length w \<le> 3" using p by simp
      have "take (p + length w) ins = take p ins @ w"
        using w by (metis take_add)
      then have f: "fold (terminal_handle_input B) w (t p) = t (p + length w)"
        by (simp add: t_def)
      from Cons.IH [OF l r] waiting [OF p] show ?thesis by (simp add: f)
    qed
  qed
  from aux [of 0 ws] assms(7) obtain ws' where
    w: "wait_until_readable B ws term n = Some (3, t 3, ws')"
    by (auto simp: ins_def t0)
  have u: "[0..2] = [0, 1, 2 :: int]" by (simp add: upto_rec1)
  show ?thesis
    unfolding terminal_read_def n_def [symmetric] Let_def w
    by (simp add: copy_loop_eq u i3)
qed

text \<open>
  C1 (the code departs from it). With the four bytes \<open>a\<close>, newline, \<open>b\<close>, \<open>c\<close> in the
  buffer, a read of 4 returns all four bytes, two of them past the first newline.
\<close>

theorem read_past_newline:
  "(case terminal_read 128 [] (term_with [CHR ''a'', CHR 0x0A, CHR ''b'', CHR ''c'']) 4 of
      None \<Rightarrow> False
    | Some (r, dest, term, ws) \<Rightarrow> r = 4 \<and> dest = [CHR ''a'', CHR 0x0A, CHR ''b'', CHR ''c''])"
  by (simp add: terminal_read_def term_with_def mem_of_def copy_loop_eq upto_0_3)

text \<open>
  C2 (the code departs from it). With \<open>abcde\<close> in the buffer, a read of 1 returns 1
  and leaves the count 4, but the four bytes then at the front of the buffer are
  \<open>bbcd\<close>, not the undelivered \<open>bcde\<close>: \<^verbatim>\<open>memmove\<close> is given the number of bytes
  delivered as its length, not the number of bytes that remain.
\<close>

theorem read_shift_too_short:
  "(case terminal_read 128 [] (term_with ''abcde'') 1 of
      None \<Rightarrow> False
    | Some (r, dest, term, ws) \<Rightarrow>
        r = 1 \<and> dest = ''a'' \<and> count (input term) = 4
        \<and> map (buf (input term)) [0..3] = ''bbcd'')"
  by (simp add: terminal_read_def term_with_def mem_of_def copy_loop_eq upto_0_3 memmove_def)

end
